theory Spec2Isabelle
  imports Main "HOL-Library.Sublist"
begin

section \<open>Data model\<close>

text \<open>
  A Python \<open>str\<close> is a sequence of Unicode code points; it is modelled as a list of
  natural numbers. ASCII literals of the source are written with \<open>asc\<close>.
\<close>

type_synonym ustr = "nat list"

definition asc :: "string \<Rightarrow> ustr" where
  "asc s = map of_char s"

text \<open>The exceptions that the modelled code and its library calls can raise.\<close>

datatype error = IndexError | ValueError | OverflowError | UnicodeEncodeError | UnicodeDecodeError

section \<open>Dates and \<open>daterange\<close>\<close>

text \<open>
  A \<open>datetime.date\<close> is represented by its proleptic Gregorian ordinal
  (\<open>date.toordinal()\<close>): \<open>date.min\<close> is 1 and \<open>date.max\<close> (9999-12-31) is 3652059.
  Comparison of dates is comparison of ordinals, and \<open>(stop - start).days\<close> is the
  difference of ordinals. Adding a \<open>timedelta\<close> raises \<open>OverflowError\<close> when the result
  leaves the supported range.
\<close>

definition MINORD :: int where
  "MINORD = 1"

definition MAXORD :: int where
  "MAXORD = 3652059"

definition valid_date :: "int \<Rightarrow> bool" where
  "valid_date d = (MINORD \<le> d \<and> d \<le> MAXORD)"

definition date_add :: "int \<Rightarrow> int \<Rightarrow> error + int" where
  "date_add d n = (let r = d + n in if valid_date r then Inr r else Inl OverflowError)"

text \<open>
  The generator body of \<open>daterange\<close>:
  \<^verbatim>\<open>
    d = start
    while True:
        yield d
        if d == stop:
            break
        d += step
  \<close>
  The result is the list of yielded dates together with the exception that ended the
  iteration, if any. The loop has no bound of its own, so it is a partial function:
  \<open>None\<close> stands for a generator that never finishes.
\<close>

partial_function (option) daterange_loop ::
  "int \<Rightarrow> int \<Rightarrow> int \<Rightarrow> (int list \<times> error option) option" where
  "daterange_loop step stop d =
     (if d = stop then Some ([d], None)
      else (case date_add d step of
              Inl e \<Rightarrow> Some ([d], Some e)
            | Inr d' \<Rightarrow>
                Option.bind (daterange_loop step stop d')
                  (\<lambda>r. Some (d # fst r, snd r))))"

declare daterange_loop.simps [code]

text \<open>\<^verbatim>\<open>step = timedelta(days=1) * (1 if start <= stop else -1)\<close>\<close>

definition daterange :: "int \<Rightarrow> int \<Rightarrow> (int list \<times> error option) option" where
  "daterange start stop =
     (let step = 1 * (if start \<le> stop then 1 else - 1)
      in daterange_loop step stop start)"

section \<open>String primitives\<close>

text \<open>
  Whitespace as Python sees it: \<open>str.strip()\<close>, \<open>str.split()\<close> and the regular
  expression class \<open>\s\<close> on \<open>str\<close> patterns all use the same predicate
  (\<open>str.isspace\<close> on one code point).
\<close>

definition is_space :: "nat \<Rightarrow> bool" where
  "is_space c =
     ((9 \<le> c \<and> c \<le> 13) \<or> (28 \<le> c \<and> c \<le> 32) \<or> c = 0x85 \<or> c = 0xA0 \<or> c = 0x1680 \<or>
      (0x2000 \<le> c \<and> c \<le> 0x200A) \<or> c = 0x2028 \<or> c = 0x2029 \<or> c = 0x202F \<or>
      c = 0x205F \<or> c = 0x3000)"

text \<open>\<open>s.strip()\<close>\<close>

definition strip :: "ustr \<Rightarrow> ustr" where
  "strip s = rev (dropWhile is_space (rev (dropWhile is_space s)))"

text \<open>\<open>re.sub(r"\s+", " ", s)\<close>: every maximal run of whitespace becomes one space.\<close>

function re_sub_ws :: "ustr \<Rightarrow> ustr" where
  "re_sub_ws [] = []"
| "re_sub_ws (c # cs) =
     (if is_space c then 32 # re_sub_ws (dropWhile is_space cs) else c # re_sub_ws cs)"
  by pat_completeness auto
termination
  by (relation "measure length") (auto simp: length_dropWhile_le less_Suc_eq_le)

text \<open>
  \<open>s.replace(old, new)\<close>: occurrences of \<open>old\<close> are replaced from left to right without
  overlap; for an empty \<open>old\<close> Python inserts \<open>new\<close> before every character and at the end.
\<close>

function replace_str :: "ustr \<Rightarrow> ustr \<Rightarrow> ustr \<Rightarrow> ustr" where
  "replace_str old new [] = (if old = [] then new else [])"
| "replace_str old new (c # cs) =
     (if old = [] then new @ c # replace_str old new cs
      else if take (length old) (c # cs) = old
      then new @ replace_str old new (drop (length old) (c # cs))
      else c # replace_str old new cs)"
  by pat_completeness auto
termination
  by (relation "measure (\<lambda>(old, new, s). length s)") auto

text \<open>\<open>s.split(sep)\<close> for a one-character separator; the result is never empty.\<close>

fun split_sep :: "nat \<Rightarrow> ustr \<Rightarrow> ustr list" where
  "split_sep sep [] = [[]]"
| "split_sep sep (c # cs) =
     (if c = sep then [] # split_sep sep cs
      else (case split_sep sep cs of
              [] \<Rightarrow> [[c]]
            | w # ws \<Rightarrow> (c # w) # ws))"

text \<open>\<open>s.split()\<close>: the maximal runs of non-whitespace characters.\<close>

function split_ws :: "ustr \<Rightarrow> ustr list" where
  "split_ws [] = []"
| "split_ws (c # cs) =
     (if is_space c then split_ws cs
      else (c # takeWhile (\<lambda>x. \<not> is_space x) cs) # split_ws (dropWhile (\<lambda>x. \<not> is_space x) cs))"
  by pat_completeness auto
termination
  by (relation "measure length") (auto simp: length_dropWhile_le less_Suc_eq_le)

text \<open>\<open>xs[0]\<close> raises \<open>IndexError\<close> on an empty list.\<close>

definition index0 :: "'a list \<Rightarrow> error + 'a" where
  "index0 xs = (case xs of [] \<Rightarrow> Inl IndexError | x # _ \<Rightarrow> Inr x)"

text \<open>\<open>sep.join(xs)\<close>\<close>

fun join :: "ustr \<Rightarrow> ustr list \<Rightarrow> ustr" where
  "join sep [] = []"
| "join sep [x] = x"
| "join sep (x # y # ys) = x @ sep @ join sep (y # ys)"

text \<open>Sequencing of computations that may raise.\<close>

definition bind_result :: "error + 'a \<Rightarrow> ('a \<Rightarrow> error + 'b) \<Rightarrow> error + 'b" where
  "bind_result r f = (case r of Inl e \<Rightarrow> Inl e | Inr v \<Rightarrow> f v)"

section \<open>Codecs\<close>

text \<open>
  \<open>s.encode("ascii", errors)\<close>: with the handler \<open>strict\<close> a code point outside ASCII
  raises \<open>UnicodeEncodeError\<close>, with \<open>ignore\<close> it is dropped. Bytes are numbers below 256.
\<close>

datatype error_handler = Strict | Ignore

fun encode_ascii :: "error_handler \<Rightarrow> ustr \<Rightarrow> error + nat list" where
  "encode_ascii Strict s =
     (if list_all (\<lambda>c. c < 128) s then Inr s else Inl UnicodeEncodeError)"
| "encode_ascii Ignore s = Inr (filter (\<lambda>c. c < 128) s)"

text \<open>
  \<open>b.decode()\<close>: strict UTF-8 decoding. Overlong forms, surrogates, code points above
  U+10FFFF, stray continuation bytes and truncated sequences raise \<open>UnicodeDecodeError\<close>.
\<close>

definition is_cont :: "nat \<Rightarrow> bool" where
  "is_cont b = (0x80 \<le> b \<and> b \<le> 0xBF)"

fun decode_utf8 :: "nat list \<Rightarrow> error + ustr" where
  "decode_utf8 [] = Inr []"
| "decode_utf8 (b # bs) =
     (if b < 0x80 then bind_result (decode_utf8 bs) (\<lambda>r. Inr (b # r))
      else if 0xC2 \<le> b \<and> b \<le> 0xDF then
        (case bs of
           c1 # r1 \<Rightarrow>
             if is_cont c1
             then bind_result (decode_utf8 r1)
                    (\<lambda>r. Inr (((b - 0xC0) * 64 + (c1 - 0x80)) # r))
             else Inl UnicodeDecodeError
         | _ \<Rightarrow> Inl UnicodeDecodeError)
      else if 0xE0 \<le> b \<and> b \<le> 0xEF then
        (case bs of
           c1 # c2 # r2 \<Rightarrow>
             if is_cont c1 \<and> is_cont c2 \<and> (b = 0xE0 \<longrightarrow> 0xA0 \<le> c1) \<and> (b = 0xED \<longrightarrow> c1 \<le> 0x9F)
             then bind_result (decode_utf8 r2)
                    (\<lambda>r. Inr (((b - 0xE0) * 4096 + (c1 - 0x80) * 64 + (c2 - 0x80)) # r))
             else Inl UnicodeDecodeError
         | _ \<Rightarrow> Inl UnicodeDecodeError)
      else if 0xF0 \<le> b \<and> b \<le> 0xF4 then
        (case bs of
           c1 # c2 # c3 # r3 \<Rightarrow>
             if is_cont c1 \<and> is_cont c2 \<and> is_cont c3 \<and>
                (b = 0xF0 \<longrightarrow> 0x90 \<le> c1) \<and> (b = 0xF4 \<longrightarrow> c1 \<le> 0x8F)
             then bind_result (decode_utf8 r3)
                    (\<lambda>r. Inr (((b - 0xF0) * 262144 + (c1 - 0x80) * 4096 +
                                (c2 - 0x80) * 64 + (c3 - 0x80)) # r))
             else Inl UnicodeDecodeError
         | _ \<Rightarrow> Inl UnicodeDecodeError)
      else Inl UnicodeDecodeError)"

section \<open>Library functions taken as parameters\<close>

text \<open>
  The functions below belong to libraries outside the repository and depend on large
  tables (the Unicode character database) or long algorithms (URL resolution, slug
  generation). They are parameters of the model:
  \<^item> \<open>nfkd\<close>: \<open>unicodedata.normalize("NFKD", s)\<close>;
  \<open>isalnum\<close>: \<open>str.isalnum\<close> on one code point outside ASCII;
  \<^item> \<open>urljoin\<close>: \<open>urllib.parse.urljoin(base, url)\<close>, which raises \<open>ValueError\<close> on some
  malformed references; \<open>urlparse_path\<close>: \<open>urlparse(url).path\<close>, likewise;
  \<^item> \<open>slugify\<close>: \<open>slugify.slugify(s)\<close>.
\<close>

record lib =
  nfkd :: "ustr \<Rightarrow> ustr"
  isalnum :: "nat \<Rightarrow> bool"
  urljoin :: "ustr \<Rightarrow> ustr \<Rightarrow> error + ustr"
  urlparse_path :: "ustr \<Rightarrow> error + ustr"
  slugify :: "ustr \<Rightarrow> ustr"

section \<open>\<open>squash\<close>\<close>

text \<open>
  \<^verbatim>\<open>
  def squash(text: str) -> str:
      return re.sub(
          r"\s+", " ",
          unicodedata.normalize("NFKD", text).encode("ascii", "ignore").decode()
      ).strip()
  \<close>
\<close>

definition squash :: "lib \<Rightarrow> ustr \<Rightarrow> error + ustr" where
  "squash L text =
     bind_result (encode_ascii Ignore (nfkd L text)) (\<lambda>bs.
     bind_result (decode_utf8 bs) (\<lambda>s.
     Inr (strip (re_sub_ws s))))"

text \<open>
  Whitespace normal form: every whitespace character is a single space that is not
  followed by another whitespace character. It describes the results of \<open>re_sub_ws\<close>.
\<close>

fun wsnf :: "ustr \<Rightarrow> bool" where
  "wsnf [] = True"
| "wsnf (c # cs) =
     ((is_space c \<longrightarrow> c = 32 \<and> (cs \<noteq> [] \<longrightarrow> \<not> is_space (hd cs))) \<and> wsnf cs)"

section \<open>\<open>date.isoformat\<close>\<close>

text \<open>
  \<open>day.isoformat()\<close> is \<open>"%04d-%02d-%02d" % (year, month, day)\<close>. Year, month and day
  are computed from the ordinal by the usual civil-calendar conversion (400-year eras
  that begin on 1 March).
\<close>

definition ord2ymd :: "int \<Rightarrow> int \<times> int \<times> int" where
  "ord2ymd n =
     (let z = n - 1 + 306;
          era = z div 146097;
          doe = z mod 146097;
          yoe = (doe - doe div 1460 + doe div 36524 - doe div 146096) div 365;
          doy = doe - (365 * yoe + yoe div 4 - yoe div 100);
          mp = (5 * doy + 2) div 153;
          d = doy - (153 * mp + 2) div 5 + 1;
          m = (if mp < 10 then mp + 3 else mp - 9);
          y = yoe + era * 400 + (if m \<le> 2 then 1 else 0)
      in (y, m, d))"

definition digit :: "int \<Rightarrow> nat" where
  "digit n = 48 + nat (n mod 10)"

definition isoformat :: "int \<Rightarrow> ustr" where
  "isoformat n =
     (case ord2ymd n of (y, m, d) \<Rightarrow>
        [digit (y div 1000), digit (y div 100), digit (y div 10), digit y, 45,
         digit (m div 10), digit m, 45, digit (d div 10), digit d])"

section \<open>\<open>pathlib\<close> paths\<close>

text \<open>
  A pure POSIX path is its root (\<open>""\<close>, \<open>"/"\<close> or \<open>"//"\<close>) and its components. Parsing a
  string drops empty components and \<open>"."\<close>. \<open>p / s\<close> appends the components of \<open>s\<close>,
  unless \<open>s\<close> is absolute, in which case it replaces \<open>p\<close>.
\<close>

datatype path = Path (path_root: ustr) (path_parts: "ustr list")

definition parse_path :: "ustr \<Rightarrow> path" where
  "parse_path s =
     Path (if take 2 s = asc ''//'' \<and> take 3 s \<noteq> asc ''///'' then asc ''//''
           else if take 1 s = asc ''/'' then asc ''/'' else [])
          (filter (\<lambda>p. p \<noteq> [] \<and> p \<noteq> asc ''.'') (split_sep 47 s))"

definition joinpath :: "path \<Rightarrow> ustr \<Rightarrow> path" where
  "joinpath p s =
     (let q = parse_path s
      in if path_root q \<noteq> [] then q else Path (path_root p) (path_parts p @ path_parts q))"

definition path_str :: "path \<Rightarrow> ustr" where
  "path_str p =
     (if path_root p = [] \<and> path_parts p = [] then asc ''.''
      else path_root p @ join (asc ''/'') (path_parts p))"

text \<open>\<open>s.rfind(c)\<close>, with \<open>None\<close> for -1.\<close>

definition rfind :: "nat \<Rightarrow> ustr \<Rightarrow> nat option" where
  "rfind c s =
     (if c \<in> set s then Some (length s - 1 - length (takeWhile (\<lambda>x. x \<noteq> c) (rev s)))
      else None)"

text \<open>\<open>p.suffix\<close>: the last dot of the final component, unless it is the first or last character.\<close>

definition path_suffix :: "path \<Rightarrow> ustr" where
  "path_suffix p =
     (let name = (if path_parts p = [] then [] else last (path_parts p))
      in case rfind 46 name of
           None \<Rightarrow> []
         | Some i \<Rightarrow> if 0 < i \<and> i < length name - 1 then drop i name else [])"

section \<open>Regular expressions of the scraper\<close>

text \<open>
  A literal pattern character under \<open>re.I\<close> on \<open>str\<close>: the subject character matches when
  its lower case is that of the pattern character; for \<open>i\<close>, \<open>s\<close> and \<open>k\<close> the characters
  U+0130, U+0131, U+017F and U+212A match as well.
\<close>

definition ci_eq :: "nat \<Rightarrow> nat \<Rightarrow> bool" where
  "ci_eq p c =
     (c = p \<or> (97 \<le> p \<and> p \<le> 122 \<and> c + 32 = p) \<or> (65 \<le> p \<and> p \<le> 90 \<and> c = p + 32) \<or>
      ((p = 105 \<or> p = 73) \<and> (c = 0x130 \<or> c = 0x131)) \<or>
      ((p = 115 \<or> p = 83) \<and> c = 0x17F) \<or>
      ((p = 107 \<or> p = 75) \<and> c = 0x212A))"

fun ci_prefix :: "ustr \<Rightarrow> ustr \<Rightarrow> bool" where
  "ci_prefix [] s = True"
| "ci_prefix (p # ps) [] = False"
| "ci_prefix (p # ps) (c # cs) = (ci_eq p c \<and> ci_prefix ps cs)"

text \<open>\<open>\w\<close>: alphanumeric characters and the underscore.\<close>

definition is_word :: "lib \<Rightarrow> nat \<Rightarrow> bool" where
  "is_word L c =
     (c = 95 \<or>
      (if c < 128 then (48 \<le> c \<and> c \<le> 57) \<or> (65 \<le> c \<and> c \<le> 90) \<or> (97 \<le> c \<and> c \<le> 122)
       else isalnum L c))"

text \<open>\<open>\b\<close> between the previous and the next character (\<open>None\<close> at the ends of the string).\<close>

definition word_boundary :: "lib \<Rightarrow> nat option \<Rightarrow> nat option \<Rightarrow> bool" where
  "word_boundary L prev nxt =
     ((case prev of None \<Rightarrow> False | Some c \<Rightarrow> is_word L c) \<noteq>
      (case nxt of None \<Rightarrow> False | Some c \<Rightarrow> is_word L c))"

text \<open>\<open>re.compile(r"\bMensa\b", re.I).search(s)\<close>, scanning from left to right.\<close>

definition mensa_here :: "lib \<Rightarrow> nat option \<Rightarrow> ustr \<Rightarrow> bool" where
  "mensa_here L prev s =
     (ci_prefix (asc ''Mensa'') s \<and>
      word_boundary L prev (Some (hd s)) \<and>
      word_boundary L (Some (s ! 4)) (if length s \<le> 5 then None else Some (s ! 5)))"

fun mensa_search_from :: "lib \<Rightarrow> nat option \<Rightarrow> ustr \<Rightarrow> bool" where
  "mensa_search_from L prev [] = False"
| "mensa_search_from L prev (c # cs) =
     (mensa_here L prev (c # cs) \<or> mensa_search_from L (Some c) cs)"

definition re_search_mensa :: "lib \<Rightarrow> ustr \<Rightarrow> bool" where
  "re_search_mensa L s = mensa_search_from L None s"

text \<open>\<open>re.match(r"^(beilagensalat|regio[- ]?apfel)", ln, re.I)\<close>\<close>

definition is_boilerplate :: "ustr \<Rightarrow> bool" where
  "is_boilerplate ln =
     (ci_prefix (asc ''beilagensalat'') ln \<or>
      (ci_prefix (asc ''regio'') ln \<and>
       (let r = drop 5 ln
        in (r \<noteq> [] \<and> (hd r = 45 \<or> hd r = 32) \<and> ci_prefix (asc ''apfel'') (tl r)) \<or>
           ci_prefix (asc ''apfel'') r)))"

text \<open>
  \<open>re.search(r'url\(["\']?(.*?)["\']?\)', style)\<close>, returning \<open>group(1)\<close>. After
  \<open>url(\<close> and an optional quote, the group is the shortest run of characters other than
  a newline that is followed by \<open>)\<close> or by a quote and \<open>)\<close>. When there is no such run
  the search goes on at the next position.
\<close>

definition is_quote :: "nat \<Rightarrow> bool" where
  "is_quote c = (c = 34 \<or> c = 39)"

fun url_group :: "ustr \<Rightarrow> ustr option" where
  "url_group [] = None"
| "url_group (c # cs) =
     (if c = 41 then Some []
      else if is_quote c \<and> cs \<noteq> [] \<and> hd cs = 41 then Some []
      else if c = 10 then None
      else map_option (\<lambda>g. c # g) (url_group cs))"

definition url_here :: "ustr \<Rightarrow> ustr option" where
  "url_here s =
     (if take 4 s = asc ''url(''
      then (let r = drop 4 s in url_group (if r \<noteq> [] \<and> is_quote (hd r) then tl r else r))
      else None)"

fun re_search_url :: "ustr \<Rightarrow> ustr option" where
  "re_search_url [] = None"
| "re_search_url (c # cs) =
     (case url_here (c # cs) of Some g \<Rightarrow> Some g | None \<Rightarrow> re_search_url cs)"

text \<open>\<open>pat in s\<close> for strings.\<close>

fun contains :: "ustr \<Rightarrow> ustr \<Rightarrow> bool" where
  "contains pat [] = (pat = [])"
| "contains pat (c # cs) = (take (length pat) (c # cs) = pat \<or> contains pat cs)"

section \<open>The parsed document\<close>

text \<open>
  The tree that \<open>BeautifulSoup(html, "html.parser")\<close> returns. \<open>NavigableString\<close> stands
  for the string classes that \<open>get_text\<close> and \<open>stripped_strings\<close> report on ordinary tags
  (plain text and CDATA), \<open>OtherString\<close> for the ones they skip (comments, declarations,
  and the contents of \<open>script\<close>, \<open>style\<close> and \<open>template\<close> elements). A \<open>Tag\<close> has a name, its
  attributes as a dictionary (an association list, first entry wins) and its children.
\<close>

datatype node = NavigableString ustr | OtherString ustr | Tag ustr "(ustr \<times> ustr) list" "node list"

text \<open>\<open>tag.descendants\<close>: all nodes below the tag in document order.\<close>

fun descendants :: "node \<Rightarrow> node list" where
  "descendants (NavigableString s) = []"
| "descendants (OtherString s) = []"
| "descendants (Tag n a kids) = concat (map (\<lambda>k. k # descendants k) kids)"

definition is_tag :: "ustr \<Rightarrow> node \<Rightarrow> bool" where
  "is_tag nm x = (case x of Tag n a kids \<Rightarrow> n = nm | _ \<Rightarrow> False)"

text \<open>\<open>tag.get(name)\<close>\<close>

definition get_attr :: "node \<Rightarrow> ustr \<Rightarrow> ustr option" where
  "get_attr x nm = (case x of Tag n a kids \<Rightarrow> map_of a nm | _ \<Rightarrow> None)"

text \<open>\<open>tag.find(name)\<close> and \<open>tag.find_all(name)\<close>\<close>

definition find_all :: "ustr \<Rightarrow> node \<Rightarrow> node list" where
  "find_all nm x = filter (is_tag nm) (descendants x)"

definition find_first :: "ustr \<Rightarrow> node \<Rightarrow> node option" where
  "find_first nm x = (case find_all nm x of [] \<Rightarrow> None | y # _ \<Rightarrow> Some y)"

text \<open>The strings that \<open>get_text\<close> and \<open>stripped_strings\<close> iterate over.\<close>

definition all_strings :: "node \<Rightarrow> ustr list" where
  "all_strings x =
     concat (map (\<lambda>d. case d of NavigableString s \<Rightarrow> [s] | _ \<Rightarrow> []) (descendants x))"

definition stripped_strings :: "node \<Rightarrow> ustr list" where
  "stripped_strings x = filter (\<lambda>s. s \<noteq> []) (map strip (all_strings x))"

text \<open>\<open>tag.get_text()\<close> and \<open>tag.get_text(sep, strip=True)\<close>\<close>

definition get_text :: "node \<Rightarrow> ustr" where
  "get_text x = concat (all_strings x)"

definition get_text_strip :: "ustr \<Rightarrow> node \<Rightarrow> ustr" where
  "get_text_strip sep x = join sep (stripped_strings x)"

text \<open>\<open>tag.string\<close>: defined for a tag with exactly one child, through nested tags.\<close>

fun tag_string :: "node \<Rightarrow> ustr option" where
  "tag_string (Tag n a [NavigableString s]) = Some s"
| "tag_string (Tag n a [OtherString s]) = Some s"
| "tag_string (Tag n a [Tag m b ks]) = tag_string (Tag m b ks)"
| "tag_string x = None"

text \<open>The class list of a tag: its \<open>class\<close> attribute split at whitespace.\<close>

definition has_class :: "ustr \<Rightarrow> node \<Rightarrow> bool" where
  "has_class c x = (case get_attr x (asc ''class'') of None \<Rightarrow> False | Some v \<Rightarrow> c \<in> set (split_ws v))"

text \<open>\<open>select("div.text-sm > p")\<close>: the \<open>p\<close> elements whose parent is a \<open>div\<close> of class \<open>text-sm\<close>.\<close>

fun select_text_sm_p :: "node \<Rightarrow> node list" where
  "select_text_sm_p (NavigableString s) = []"
| "select_text_sm_p (OtherString s) = []"
| "select_text_sm_p (Tag n a kids) =
     concat (map (\<lambda>k. (if n = asc ''div'' \<and> has_class (asc ''text-sm'') (Tag n a kids) \<and>
                          is_tag (asc ''p'') k
                       then [k] else []) @ select_text_sm_p k) kids)"

text \<open>\<open>select("div.inline-flex")\<close> and \<open>select("div[style*=background-image]")\<close>\<close>

definition select_inline_flex :: "node \<Rightarrow> node list" where
  "select_inline_flex x =
     filter (\<lambda>d. is_tag (asc ''div'') d \<and> has_class (asc ''inline-flex'') d) (descendants x)"

definition select_bg_style :: "node \<Rightarrow> node list" where
  "select_bg_style x =
     filter (\<lambda>d. is_tag (asc ''div'') d \<and>
                 (case get_attr d (asc ''style'') of
                    None \<Rightarrow> False
                  | Some v \<Rightarrow> contains (asc ''background-image'') v))
            (descendants x)"

text \<open>\<open>select_one\<close> is the first element of \<open>select\<close>.\<close>

definition first_of :: "'a list \<Rightarrow> 'a option" where
  "first_of xs = (case xs of [] \<Rightarrow> None | x # _ \<Rightarrow> Some x)"

text \<open>
  \<open>soup.find_all("h2", string=re.compile(r"\bMensa\b", re.I))\<close> selects the \<open>h2\<close> tags
  whose \<open>.string\<close> exists and matches. \<open>h2.find_next("div")\<close> is the first \<open>div\<close> after the
  heading in document order. \<open>headings\<close> pairs every selected heading with that \<open>div\<close>,
  working on the document-order list of all nodes.
\<close>

definition is_heading :: "lib \<Rightarrow> node \<Rightarrow> bool" where
  "is_heading L x =
     (is_tag (asc ''h2'') x \<and>
      (case tag_string x of None \<Rightarrow> False | Some s \<Rightarrow> re_search_mensa L s))"

fun headings :: "lib \<Rightarrow> node list \<Rightarrow> (node \<times> node option) list" where
  "headings L [] = []"
| "headings L (x # rest) =
     (if is_heading L x then [(x, first_of (filter (is_tag (asc ''div'')) rest))] else [])
     @ headings L rest"

text \<open>\<open>container.find_all("a", href=True)\<close>\<close>

definition cards_of :: "node \<Rightarrow> node list" where
  "cards_of container =
     filter (\<lambda>c. is_tag (asc ''a'') c \<and> get_attr c (asc ''href'') \<noteq> None) (descendants container)"

section \<open>The scraper\<close>

definition BASE :: ustr where
  "BASE = asc ''https://mensa.fachschaft.tf/''"

text \<open>\<open>DAY_URL.format(day.isoformat())\<close>\<close>

definition day_url :: "int \<Rightarrow> ustr" where
  "day_url day = BASE @ asc ''?date='' @ isoformat day"

text \<open>\<open>s.replace(",", " ").replace(";", " ")\<close>\<close>

definition strip_delims :: "ustr \<Rightarrow> ustr" where
  "strip_delims s = replace_str (asc '';'') (asc '' '') (replace_str (asc '','') (asc '' '') s)"

text \<open>Truth value of a string or \<open>None\<close>.\<close>

definition truthy :: "ustr option \<Rightarrow> bool" where
  "truthy v = (case v of None \<Rightarrow> False | Some s \<Rightarrow> s \<noteq> [])"

text \<open>
  Step 1, the description:
  \<^verbatim>\<open>
    p_tag = card.select_one("div.text-sm > p")
    if not p_tag: continue
    lines = [ln.strip() for ln in p_tag.stripped_strings
             if not re.match(r"^(beilagensalat|regio[- ]?apfel)", ln, re.I)]
    if not lines: continue
    description = " ".join(lines).replace("-------------", " ")
    description = description.replace(",", " ").replace(";", " ")
    description = squash(description)
  \<close>
  \<open>Inr None\<close> stands for \<open>continue\<close>.
\<close>

definition description_lines :: "node \<Rightarrow> ustr list" where
  "description_lines p_tag =
     map strip (filter (\<lambda>ln. \<not> is_boilerplate ln) (stripped_strings p_tag))"

definition card_description :: "lib \<Rightarrow> node \<Rightarrow> error + ustr option" where
  "card_description L crd =
     (case first_of (select_text_sm_p crd) of
        None \<Rightarrow> Inr None
      | Some p_tag \<Rightarrow>
          (let lines = description_lines p_tag
           in if lines = [] then Inr None
              else bind_result
                     (squash L (strip_delims
                        (replace_str (asc ''-------------'') (asc '' '') (join (asc '' '') lines))))
                     (\<lambda>d. Inr (Some d))))"

text \<open>
  Step 2, the diet badge: the text of the first \<open>div.inline-flex\<close> with non-empty text,
  else \<open>"Nicht-vegetarisch"\<close>.
\<close>

definition card_diet :: "node \<Rightarrow> ustr" where
  "card_diet crd =
     strip_delims
       (case filter (\<lambda>t. get_text_strip [] t \<noteq> []) (select_inline_flex crd) of
          [] \<Rightarrow> asc ''Nicht-vegetarisch''
        | t # _ \<Rightarrow> get_text_strip (asc '' '') t)"

text \<open>Step 3, the type label: the text of the first \<open>span\<close>, else \<open>"meal"\<close>.\<close>

definition card_dish_type :: "node \<Rightarrow> ustr" where
  "card_dish_type crd =
     strip_delims
       (case find_first (asc ''span'') crd of
          Some sp \<Rightarrow> get_text_strip (asc '' '') sp
        | None \<Rightarrow> asc ''meal'')"

text \<open>
  Step 4, the image URL:
  \<^verbatim>\<open>
    img_url = None
    img_tag = card.find("img")
    if img_tag:
        img_url = (img_tag.get("src") or img_tag.get("data-src")
                   or (img_tag.get("srcset", "").split(",")[0].split()[0]
                       if img_tag.get("srcset") else None))
    if not img_url:
        bg = card.select_one("div[style*=background-image]")
        if bg and "background-image" in bg["style"]:
            m = re.search(r'url\(["\']?(.*?)["\']?\)', bg["style"])
            if m: img_url = m.group(1)
    if not img_url: continue
    img_url = urljoin(BASE, img_url)
  \<close>
\<close>

definition img_tag_url :: "node \<Rightarrow> error + ustr option" where
  "img_tag_url img_tag =
     (if truthy (get_attr img_tag (asc ''src'')) then Inr (get_attr img_tag (asc ''src''))
      else if truthy (get_attr img_tag (asc ''data-src''))
      then Inr (get_attr img_tag (asc ''data-src''))
      else if truthy (get_attr img_tag (asc ''srcset''))
      then bind_result
             (index0 (split_sep 44
                (case get_attr img_tag (asc ''srcset'') of None \<Rightarrow> [] | Some v \<Rightarrow> v)))
             (\<lambda>entry. bind_result (index0 (split_ws entry)) (\<lambda>tok. Inr (Some tok)))
      else Inr None)"

definition bg_url :: "node \<Rightarrow> ustr option" where
  "bg_url crd =
     (case first_of (select_bg_style crd) of
        None \<Rightarrow> None
      | Some bg \<Rightarrow>
          (case get_attr bg (asc ''style'') of
             None \<Rightarrow> None
           | Some style \<Rightarrow>
               if contains (asc ''background-image'') style then re_search_url style else None))"

definition resolve_img :: "node \<Rightarrow> error + ustr option" where
  "resolve_img crd =
     bind_result
       (case find_first (asc ''img'') crd of
          None \<Rightarrow> Inr None
        | Some img_tag \<Rightarrow> img_tag_url img_tag)
       (\<lambda>img_url. Inr (if truthy img_url then img_url else bg_url crd))"

definition card_image :: "lib \<Rightarrow> node \<Rightarrow> error + ustr option" where
  "card_image L crd =
     bind_result (resolve_img crd) (\<lambda>img_url.
       if \<not> truthy img_url then Inr None
       else bind_result (urljoin L BASE (case img_url of None \<Rightarrow> [] | Some u \<Rightarrow> u))
              (\<lambda>u. Inr (Some u)))"

text \<open>
  Steps 1 to 4 together. The result is the description, the diet, the type label and
  the absolute image URL.
\<close>

definition extract_card :: "lib \<Rightarrow> node \<Rightarrow> error + (ustr \<times> ustr \<times> ustr \<times> ustr) option" where
  "extract_card L crd =
     bind_result (card_description L crd) (\<lambda>d.
       case d of
         None \<Rightarrow> Inr None
       | Some description \<Rightarrow>
           (let diet = card_diet crd; dish_type = card_dish_type crd
            in bind_result (card_image L crd) (\<lambda>i.
                 case i of
                   None \<Rightarrow> Inr None
                 | Some img_url \<Rightarrow> Inr (Some (description, diet, dish_type, img_url)))))"

text \<open>
  The environment. \<open>goto\<close> gives the parsed page for a URL, or \<open>None\<close> when navigation
  raises. \<open>fetch\<close> gives the outcome of the body of the \<open>try\<close> block for the n-th request
  of the run: the image is fetched and written, \<open>requests.get\<close> or \<open>raise_for_status\<close>
  raises, or \<open>write_bytes\<close> raises (having created the file or not). Creating the
  directories and testing for existence are assumed not to fail. A file is identified
  with its path.
\<close>

datatype fetch_result = Fetched | GetFailed | WriteFailed bool

record world =
  goto :: "ustr \<Rightarrow> node option"
  fetch :: "nat \<Rightarrow> ustr \<Rightarrow> fetch_result"

text \<open>The state: the files that exist and the requests issued so far (path and URL).\<close>

record state =
  files :: "path set"
  requests :: "(path \<times> ustr) list"

text \<open>
  Step 5, the download:
  \<^verbatim>\<open>
    try:
        if not fpath.exists():
            r = requests.get(img_url, timeout=20); r.raise_for_status()
            fpath.write_bytes(r.content)
    except Exception:
        continue
  \<close>
  The boolean tells whether the \<open>try\<close> block finished without an exception.
\<close>

definition download :: "world \<Rightarrow> path \<Rightarrow> ustr \<Rightarrow> state \<Rightarrow> state \<times> bool" where
  "download W fpath img_url st =
     (if fpath \<in> files st then (st, True)
      else (let st1 = st\<lparr>requests := requests st @ [(fpath, img_url)]\<rparr>
            in case fetch W (length (requests st)) img_url of
                 Fetched \<Rightarrow> (st1\<lparr>files := insert fpath (files st1)\<rparr>, True)
               | GetFailed \<Rightarrow> (st1, False)
               | WriteFailed created \<Rightarrow>
                   (if created then st1\<lparr>files := insert fpath (files st1)\<rparr> else st1, False)))"

text \<open>
  \<^verbatim>\<open>
    day_dir = out_dir / day.isoformat()
    ext   = Path(urlparse(img_url).path).suffix or ".jpg"
    fname = f"{slugify(mensa)}_{slugify(dish_type)}{ext}"
    fpath = day_dir / fname
  \<close>
\<close>

definition image_ext :: "ustr \<Rightarrow> ustr" where
  "image_ext url_path =
     (let sfx = path_suffix (parse_path url_path) in if sfx = [] then asc ''.jpg'' else sfx)"

definition image_path :: "lib \<Rightarrow> path \<Rightarrow> int \<Rightarrow> ustr \<Rightarrow> ustr \<Rightarrow> ustr \<Rightarrow> path" where
  "image_path L out_dir day mensa dish_type ext =
     joinpath (joinpath out_dir (isoformat day))
       (slugify L mensa @ asc ''_'' @ slugify L dish_type @ ext)"

text \<open>One iteration of the loop over the cards: the new state and the row, if any.\<close>

definition process_card ::
  "lib \<Rightarrow> world \<Rightarrow> path \<Rightarrow> int \<Rightarrow> ustr \<Rightarrow> node \<Rightarrow> state \<Rightarrow> state \<times> (error + ustr list option)" where
  "process_card L W out_dir day mensa crd st =
     (case extract_card L crd of
        Inl e \<Rightarrow> (st, Inl e)
      | Inr None \<Rightarrow> (st, Inr None)
      | Inr (Some (description, diet, dish_type, img_url)) \<Rightarrow>
          (case urlparse_path L img_url of
             Inl e \<Rightarrow> (st, Inl e)
           | Inr url_path \<Rightarrow>
               (let fpath = image_path L out_dir day mensa dish_type (image_ext url_path)
                in case download W fpath img_url st of
                     (st', ok) \<Rightarrow>
                       (st', Inr (if ok
                                  then Some [description, asc ''no'', asc ''no'', dish_type, diet,
                                             mensa, path_str fpath]
                                  else None)))))"

fun cards_loop ::
  "lib \<Rightarrow> world \<Rightarrow> path \<Rightarrow> int \<Rightarrow> ustr \<Rightarrow> node list \<Rightarrow> state \<Rightarrow> ustr list list \<Rightarrow>
   state \<times> (error + ustr list list)" where
  "cards_loop L W out_dir day mensa [] st rows = (st, Inr rows)"
| "cards_loop L W out_dir day mensa (crd # cards) st rows =
     (case process_card L W out_dir day mensa crd st of
        (st', Inl e) \<Rightarrow> (st', Inl e)
      | (st', Inr None) \<Rightarrow> cards_loop L W out_dir day mensa cards st' rows
      | (st', Inr (Some row)) \<Rightarrow> cards_loop L W out_dir day mensa cards st' (rows @ [row]))"

text \<open>
  \<^verbatim>\<open>
    for h2 in soup.find_all("h2", string=re.compile(r"\bMensa\b", re.I)):
        mensa = squash(h2.get_text()).replace(",", " ").replace(";", " ")
        container = h2.find_next("div")
        if not container: continue
        for card in container.find_all("a", href=True): ...
  \<close>
\<close>

definition mensa_name :: "lib \<Rightarrow> node \<Rightarrow> error + ustr" where
  "mensa_name L h2 = bind_result (squash L (get_text h2)) (\<lambda>s. Inr (strip_delims s))"

fun headings_loop ::
  "lib \<Rightarrow> world \<Rightarrow> path \<Rightarrow> int \<Rightarrow> (node \<times> node option) list \<Rightarrow> state \<Rightarrow> ustr list list \<Rightarrow>
   state \<times> (error + ustr list list)" where
  "headings_loop L W out_dir day [] st rows = (st, Inr rows)"
| "headings_loop L W out_dir day ((h2, container) # hs) st rows =
     (case mensa_name L h2 of
        Inl e \<Rightarrow> (st, Inl e)
      | Inr mensa \<Rightarrow>
          (case container of
             None \<Rightarrow> headings_loop L W out_dir day hs st rows
           | Some c \<Rightarrow>
               (case cards_loop L W out_dir day mensa (cards_of c) st rows of
                  (st', Inl e) \<Rightarrow> (st', Inl e)
                | (st', Inr rows') \<Rightarrow> headings_loop L W out_dir day hs st' rows')))"

text \<open>
  \<^verbatim>\<open>
    for day in tqdm(daterange(start, stop), desc="Scraping"):
        url = DAY_URL.format(day.isoformat())
        try: await page.goto(url, wait_until="networkidle", timeout=40_000)
        except Exception: continue
        soup = BeautifulSoup(await page.content(), "html.parser")
        ...
  \<close>
\<close>

fun days_loop ::
  "lib \<Rightarrow> world \<Rightarrow> path \<Rightarrow> int list \<Rightarrow> state \<Rightarrow> ustr list list \<Rightarrow>
   state \<times> (error + ustr list list)" where
  "days_loop L W out_dir [] st rows = (st, Inr rows)"
| "days_loop L W out_dir (day # days) st rows =
     (case goto W (day_url day) of
        None \<Rightarrow> days_loop L W out_dir days st rows
      | Some soup \<Rightarrow>
          (case headings_loop L W out_dir day (headings L (descendants soup)) st rows of
             (st', Inl e) \<Rightarrow> (st', Inl e)
           | (st', Inr rows') \<Rightarrow> days_loop L W out_dir days st' rows'))"

text \<open>
  \<open>scrape\<close>: the final state together with the returned rows or the exception that left
  the function. An exception of the generator is raised after the days it has yielded.
  \<open>None\<close> would be a run that never ends.
\<close>

definition scrape ::
  "lib \<Rightarrow> world \<Rightarrow> int \<Rightarrow> int \<Rightarrow> path \<Rightarrow> state \<Rightarrow> (state \<times> (error + ustr list list)) option" where
  "scrape L W start stop out_dir st =
     (case daterange start stop of
        None \<Rightarrow> None
      | Some (days, exn) \<Rightarrow>
          Some (case days_loop L W out_dir days st [] of
                  (st', Inl e) \<Rightarrow> (st', Inl e)
                | (st', Inr rows) \<Rightarrow>
                    (case exn of None \<Rightarrow> (st', Inr rows) | Some e \<Rightarrow> (st', Inl e))))"

text \<open>
  \<open>save_csv\<close> writes the header with \<open>writerow\<close> and the rows with \<open>writerows\<close>; the model
  is the sequence of records handed to the writer.
\<close>

definition csv_header :: "ustr list" where
  "csv_header = [asc ''description'', asc ''Beilagensalat'', asc ''Regio Apfel'', asc ''type'',
                 asc ''diet'', asc ''mensa'', asc ''image_path'']"

definition save_csv :: "ustr list list \<Rightarrow> ustr list list" where
  "save_csv rows = csv_header # rows"

section \<open>Notions used to state the properties\<close>

text \<open>
  The cards in the order in which \<open>scrape\<close> visits them: the days in the given order,
  within a day the selected headings in document order, within a heading the cards of
  its container in document order. Each item is the day, the cafeteria name and the card.
\<close>

definition heading_items :: "lib \<Rightarrow> int \<Rightarrow> node \<times> node option \<Rightarrow> (int \<times> ustr \<times> node) list" where
  "heading_items L day h =
     (case h of (h2, container) \<Rightarrow>
        (case mensa_name L h2 of
           Inl e \<Rightarrow> []
         | Inr mensa \<Rightarrow>
             (case container of
                None \<Rightarrow> []
              | Some c \<Rightarrow> map (\<lambda>crd. (day, mensa, crd)) (cards_of c))))"

definition day_items :: "lib \<Rightarrow> world \<Rightarrow> int \<Rightarrow> (int \<times> ustr \<times> node) list" where
  "day_items L W day =
     (case goto W (day_url day) of
        None \<Rightarrow> []
      | Some soup \<Rightarrow> concat (map (heading_items L day) (headings L (descendants soup))))"

definition work_items :: "lib \<Rightarrow> world \<Rightarrow> int list \<Rightarrow> (int \<times> ustr \<times> node) list" where
  "work_items L W days = concat (map (day_items L W) days)"

text \<open>The row that an item contributes when it is not dropped.\<close>

definition row_of :: "lib \<Rightarrow> path \<Rightarrow> int \<times> ustr \<times> node \<Rightarrow> ustr list" where
  "row_of L out_dir item =
     (case item of (day, mensa, crd) \<Rightarrow>
        (case extract_card L crd of
           Inr (Some (description, diet, dish_type, img_url)) \<Rightarrow>
             (case urlparse_path L img_url of
                Inr url_path \<Rightarrow>
                  [description, asc ''no'', asc ''no'', dish_type, diet, mensa,
                   path_str (image_path L out_dir day mensa dish_type (image_ext url_path))]
              | Inl e \<Rightarrow> [])
         | _ \<Rightarrow> []))"

text \<open>
  Replaying a list of requests, the first being the n-th of the run, on a set of
  existing files: a request for a file that exists at that moment is not allowed
  (\<open>None\<close>); otherwise the file exists afterwards if the fetch wrote it.
\<close>

fun replay :: "world \<Rightarrow> nat \<Rightarrow> path set \<Rightarrow> (path \<times> ustr) list \<Rightarrow> path set option" where
  "replay W n F [] = Some F"
| "replay W n F ((p, u) # rest) =
     (if p \<in> F then None
      else replay W (Suc n)
             (case fetch W n u of
                Fetched \<Rightarrow> insert p F
              | GetFailed \<Rightarrow> F
              | WriteFailed created \<Rightarrow> if created then insert p F else F)
             rest)"

text \<open>
  A later state extends an earlier one when its requests are those of the earlier state
  followed by new ones, and replaying the new requests on the earlier files is allowed
  and gives the later files.
\<close>

definition extends :: "world \<Rightarrow> state \<Rightarrow> state \<Rightarrow> bool" where
  "extends W st st' =
     (\<exists>new. requests st' = requests st @ new \<and>
            replay W (length (requests st)) (files st) new = Some (files st'))"

text \<open>A field without comma and semicolon.\<close>

definition delim_free :: "ustr \<Rightarrow> bool" where
  "delim_free s = (44 \<notin> set s \<and> 59 \<notin> set s)"

text \<open>
  The shape of a row: seven fields, the two placeholder columns, and the type, diet
  and cafeteria columns without comma and semicolon.
\<close>

definition row_shape :: "ustr list \<Rightarrow> bool" where
  "row_shape row =
     (length row = 7 \<and> row ! 1 = asc ''no'' \<and> row ! 2 = asc ''no'' \<and>
      delim_free (row ! 3) \<and> delim_free (row ! 4) \<and> delim_free (row ! 5))"

section \<open>An instance of the library parameters\<close>

text \<open>
  Concrete functions for the parameters, used to evaluate the model on examples. Each
  is an excerpt of the library function: \<open>sample_nfkd\<close> knows the decompositions of a
  few characters (U+00E9, U+00FC, U+00A0, U+FF0C, U+FF1B) and leaves every other
  character alone; \<open>sample_urljoin\<close> resolves absolute URLs, network-path and
  absolute-path references against the base and raises \<open>ValueError\<close> for an unbalanced
  bracket in the authority; \<open>sample_slugify\<close> lower-cases ASCII letters and digits and
  joins the runs with hyphens.
\<close>

definition sample_decomp :: "nat \<Rightarrow> ustr" where
  "sample_decomp c =
     (if c = 0xE9 then [0x65, 0x301]
      else if c = 0xFC then [0x75, 0x308]
      else if c = 0xA0 then [0x20]
      else if c = 0xFF0C then [0x2C]
      else if c = 0xFF1B then [0x3B]
      else [c])"

definition sample_nfkd :: "ustr \<Rightarrow> ustr" where
  "sample_nfkd s = concat (map sample_decomp s)"

definition sample_isalnum :: "nat \<Rightarrow> bool" where
  "sample_isalnum c = (c = 0xE9 \<or> c = 0xFC \<or> c = 0x17F)"

definition url_origin :: "ustr \<Rightarrow> ustr" where
  "url_origin u = take 8 u @ takeWhile (\<lambda>c. c \<noteq> 47) (drop 8 u)"

definition sample_urljoin :: "ustr \<Rightarrow> ustr \<Rightarrow> error + ustr" where
  "sample_urljoin base u =
     (if take 8 u = asc ''https://'' \<or> take 7 u = asc ''http://'' then Inr u
      else if take 2 u = asc ''//'' then
        (let netloc = takeWhile (\<lambda>c. c \<noteq> 47 \<and> c \<noteq> 63 \<and> c \<noteq> 35) (drop 2 u)
         in if (91 \<in> set netloc) \<noteq> (93 \<in> set netloc) then Inl ValueError
            else Inr (asc ''https:'' @ u))
      else if take 1 u = asc ''/'' then Inr (url_origin base @ u)
      else Inr (base @ u))"

definition sample_urlparse_path :: "ustr \<Rightarrow> error + ustr" where
  "sample_urlparse_path u =
     (let r = (if take 8 u = asc ''https://'' then dropWhile (\<lambda>c. c \<noteq> 47) (drop 8 u)
               else if take 7 u = asc ''http://'' then dropWhile (\<lambda>c. c \<noteq> 47) (drop 7 u)
               else u)
      in Inr (takeWhile (\<lambda>c. c \<noteq> 63 \<and> c \<noteq> 35) r))"

definition ascii_alnum :: "nat \<Rightarrow> bool" where
  "ascii_alnum c = ((48 \<le> c \<and> c \<le> 57) \<or> (65 \<le> c \<and> c \<le> 90) \<or> (97 \<le> c \<and> c \<le> 122))"

definition ascii_lower :: "nat \<Rightarrow> nat" where
  "ascii_lower c = (if 65 \<le> c \<and> c \<le> 90 then c + 32 else c)"

fun slug_words :: "ustr \<Rightarrow> ustr list" where
  "slug_words [] = [[]]"
| "slug_words (c # cs) =
     (if ascii_alnum c
      then (case slug_words cs of [] \<Rightarrow> [[ascii_lower c]] | w # ws \<Rightarrow> (ascii_lower c # w) # ws)
      else [] # slug_words cs)"

definition sample_slugify :: "ustr \<Rightarrow> ustr" where
  "sample_slugify s = join (asc ''-'') (filter (\<lambda>w. w \<noteq> []) (slug_words s))"

definition sample_lib :: lib where
  "sample_lib = \<lparr> nfkd = sample_nfkd, isalnum = sample_isalnum, urljoin = sample_urljoin,
                  urlparse_path = sample_urlparse_path, slugify = sample_slugify \<rparr>"

section \<open>Example pages\<close>

text \<open>
  A page with one heading \<open>Mensa Academica\<close> followed by a container with the given
  cards, an environment that serves one page for every day and answers every fetch in
  the same way, and the state of a run that starts with an empty output directory.
\<close>

definition page_of_cards :: "node list \<Rightarrow> node" where
  "page_of_cards cs = Tag (asc ''[document]'') []
     [Tag (asc ''h2'') [] [NavigableString (asc ''Mensa Academica'')],
      Tag (asc ''div'') [] cs]"

definition const_world :: "node \<Rightarrow> fetch_result \<Rightarrow> world" where
  "const_world page r = \<lparr> goto = (\<lambda>u. Some page), fetch = (\<lambda>n u. r) \<rparr>"

definition st0 :: state where
  "st0 = \<lparr> files = {}, requests = [] \<rparr>"

text \<open>
  A card with the given description strings (each followed by a line break), type label
  and attributes of its image element, and the diet badge \<open>Vegan\<close>.
\<close>

definition make_card :: "ustr list \<Rightarrow> ustr \<Rightarrow> (ustr \<times> ustr) list \<Rightarrow> node list \<Rightarrow> node" where
  "make_card lines ty img_attrs extra =
     Tag (asc ''a'') [(asc ''href'', asc ''/meal/1'')]
       ([Tag (asc ''img'') img_attrs [],
         Tag (asc ''div'') [(asc ''class'', asc ''text-sm'')]
           [Tag (asc ''p'') []
              (concat (map (\<lambda>ln. [NavigableString ln, Tag (asc ''br'') [] []]) lines))],
         Tag (asc ''div'') [(asc ''class'', asc ''inline-flex'')] [NavigableString (asc ''Vegan'')],
         Tag (asc ''span'') [] [NavigableString ty]] @ extra)"

text \<open>The card of the example in the specification.\<close>

definition ex_card :: node where
  "ex_card = make_card [asc ''Pasta Bolognese'', asc ''Beilagensalat optional'']
     (asc ''Hauptgericht'') [(asc ''src'', asc ''/img/pasta.jpg'')] []"

text \<open>
  A card whose image element has a \<open>srcset\<close> of one space and no \<open>src\<close>, and which
  carries a background image.
\<close>

definition bad_card :: node where
  "bad_card = make_card [asc ''Suppe''] (asc ''Vorspeise'') [(asc ''srcset'', asc '' '')]
     [Tag (asc ''div'') [(asc ''style'', asc ''background-image:url(/img/x.jpg)'')] []]"

text \<open>A card whose description consists of boilerplate only; its image element is as above.\<close>

definition boiler_card :: node where
  "boiler_card = make_card [asc ''Beilagensalat optional'', asc ''REGIO-APFEL dazu'']
     (asc ''Hauptgericht'') [(asc ''srcset'', asc '' '')] []"

text \<open>Two cards of the same type whose images differ in the extension, and a third one.\<close>

definition card_jpg :: node where
  "card_jpg = make_card [asc ''Pasta''] (asc ''Hauptgericht'') [(asc ''src'', asc ''/img/a.jpg'')] []"

definition card_png :: node where
  "card_png = make_card [asc ''Pizza''] (asc ''Hauptgericht'') [(asc ''src'', asc ''/img/b.png'')] []"

definition card_jpg2 :: node where
  "card_jpg2 = make_card [asc ''Risotto''] (asc ''Hauptgericht'') [(asc ''src'', asc ''/img/c.jpg'')] []"

text \<open>The image files and URLs of these cards for 2025-01-15 below \<open>images\<close>.\<close>

definition jpg_file :: path where
  "jpg_file = Path [] [asc ''images'', asc ''2025-01-15'', asc ''mensa-academica_hauptgericht.jpg'']"

definition png_file :: path where
  "png_file = Path [] [asc ''images'', asc ''2025-01-15'', asc ''mensa-academica_hauptgericht.png'']"

text \<open>A card whose description contains U+FF0C, the fullwidth comma.\<close>

definition comma_card :: node where
  "comma_card = make_card [asc ''Reis'' @ [0xFF0C] @ asc ''Curry''] (asc ''Hauptgericht'')
     [(asc ''src'', asc ''/img/a.jpg'')] []"

section \<open>Properties of \<open>daterange\<close>\<close>

lemma daterange_loop_forward:
  assumes "MINORD \<le> d" "d \<le> stop" "stop \<le> MAXORD"
  shows "daterange_loop 1 stop d = Some ([d..stop], None)"
  using assms
proof (induction "nat (stop - d)" arbitrary: d)
  case 0
  then have "d = stop" by simp
  then show ?case by (simp add: daterange_loop.simps)
next
  case (Suc n)
  then have lt: "d < stop" by linarith
  have step: "date_add d 1 = Inr (d + 1)"
    using Suc.prems lt by (simp add: date_add_def valid_date_def Let_def)
  have ih: "daterange_loop 1 stop (d + 1) = Some ([d + 1..stop], None)"
    using Suc.hyps Suc.prems lt by (intro Suc.hyps(1)) linarith+
  have "[d..stop] = d # [d + 1..stop]"
    using lt by (simp add: upto_rec1)
  with lt step ih show ?case
    by (subst daterange_loop.simps) simp
qed

lemma daterange_loop_backward:
  assumes "MINORD \<le> stop" "stop \<le> d" "d \<le> MAXORD"
  shows "daterange_loop (- 1) stop d = Some (rev [stop..d], None)"
  using assms
proof (induction "nat (d - stop)" arbitrary: d)
  case 0
  then have "d = stop" by simp
  then show ?case by (simp add: daterange_loop.simps)
next
  case (Suc n)
  then have lt: "stop < d" by linarith
  have step: "date_add d (- 1) = Inr (d - 1)"
    using Suc.prems lt by (simp add: date_add_def valid_date_def Let_def)
  have ih: "daterange_loop (- 1) stop (d - 1) = Some (rev [stop..d - 1], None)"
    using Suc.hyps Suc.prems lt by (intro Suc.hyps(1)) linarith+
  have "[stop..d] = [stop..d - 1] @ [d]"
    using lt by (simp add: upto_rec2)
  with lt step ih show ?case
    by (subst daterange_loop.simps) simp
qed

lemma daterange_forward:
  assumes "valid_date start" "valid_date stop" "start \<le> stop"
  shows "daterange start stop = Some ([start..stop], None)"
  using assms daterange_loop_forward [of start stop]
  by (simp add: daterange_def valid_date_def)

lemma daterange_backward:
  assumes "valid_date start" "valid_date stop" "stop < start"
  shows "daterange start stop = Some (rev [stop..start], None)"
  using assms daterange_loop_backward [of stop start]
  by (simp add: daterange_def valid_date_def)

lemma sorted_wrt_less_upto: "sorted_wrt (<) [i..j]"
  by (simp add: strict_sorted_iff)

lemma sorted_wrt_greater_rev_upto: "sorted_wrt (>) (rev [i..j])"
proof -
  have "sorted_wrt (\<lambda>x y. y < x) (rev [i..j]) = sorted_wrt (<) [i..j]"
    by (simp add: sorted_wrt_rev)
  then show ?thesis by (simp add: sorted_wrt_less_upto)
qed


lemma daterange_loop_forward_returns:
  assumes "d \<le> stop"
  shows "\<exists>r. daterange_loop 1 stop d = Some r"
  using assms
proof (induction "nat (stop - d)" arbitrary: d)
  case 0
  then have "d = stop" by simp
  then show ?case by (simp add: daterange_loop.simps)
next
  case (Suc n)
  then have lt: "d < stop" by linarith
  show ?case
  proof (cases "date_add d 1")
    case (Inl e)
    with lt show ?thesis by (subst daterange_loop.simps) simp
  next
    case (Inr d')
    then have d': "d' = d + 1"
      by (simp add: date_add_def Let_def split: if_splits)
    have "\<exists>r. daterange_loop 1 stop d' = Some r"
      using Suc.hyps lt unfolding d' by (intro Suc.hyps(1)) linarith+
    with lt Inr show ?thesis by (subst daterange_loop.simps) auto
  qed
qed

lemma daterange_loop_backward_returns:
  assumes "stop \<le> d"
  shows "\<exists>r. daterange_loop (- 1) stop d = Some r"
  using assms
proof (induction "nat (d - stop)" arbitrary: d)
  case 0
  then have "d = stop" by simp
  then show ?case by (simp add: daterange_loop.simps)
next
  case (Suc n)
  then have lt: "stop < d" by linarith
  show ?case
  proof (cases "date_add d (- 1)")
    case (Inl e)
    with lt show ?thesis by (subst daterange_loop.simps) simp
  next
    case (Inr d')
    then have d': "d' = d - 1"
      by (simp add: date_add_def Let_def split: if_splits)
    have "\<exists>r. daterange_loop (- 1) stop d' = Some r"
      using Suc.hyps lt unfolding d' by (intro Suc.hyps(1)) linarith+
    with lt Inr show ?thesis by (subst daterange_loop.simps) auto
  qed
qed

lemma daterange_returns: "\<exists>r. daterange start stop = Some r"
proof (cases "start \<le> stop")
  case True
  then show ?thesis
    using daterange_loop_forward_returns [of start stop] by (simp add: daterange_def)
next
  case False
  then show ?thesis
    using daterange_loop_backward_returns [of stop start] by (simp add: daterange_def)
qed

lemma last_upto: "i \<le> j \<Longrightarrow> last [i..j] = j"
  by (simp add: upto_rec2)

lemma hd_upto: "i \<le> j \<Longrightarrow> hd [i..j] = i"
  by (simp add: upto_rec1)

lemma butlast_upto: "i \<le> j \<Longrightarrow> butlast [i..j] = [i..j - 1]"
  by (simp add: upto_rec2)

text \<open>
  Claim C1. For valid dates \<open>start\<close> and \<open>stop\<close> the generator finishes without an
  exception. Its first date is \<open>start\<close> and its last date is \<open>stop\<close>. When
  \<open>start \<le> stop\<close> it yields \<open>(stop - start).days + 1\<close> dates in strictly ascending order,
  namely every day from \<open>start\<close> to \<open>stop\<close>. When \<open>start > stop\<close> it yields the dates of
  the range between the same two endpoints in strictly descending order, so the count is
  that of the mirrored forward range, \<open>(start - stop).days + 1\<close>. For \<open>start = stop\<close> the
  sequence is the single date.
\<close>

theorem daterange_inclusive:
  assumes "valid_date start" and "valid_date stop"
  shows "\<exists>ys. daterange start stop = Some (ys, None) \<and> hd ys = start \<and> last ys = stop \<and>
           (start \<le> stop \<longrightarrow>
              int (length ys) = (stop - start) + 1 \<and> sorted_wrt (<) ys \<and> ys = [start..stop]) \<and>
           (stop < start \<longrightarrow>
              int (length ys) = (start - stop) + 1 \<and> sorted_wrt (>) ys \<and>
              ys = rev [stop..start] \<and>
              daterange stop start = Some (rev ys, None)) \<and>
           (start = stop \<longrightarrow> ys = [start])"
proof (cases "start \<le> stop")
  case True
  have "daterange start stop = Some ([start..stop], None)"
    using assms True by (rule daterange_forward)
  moreover have "hd [start..stop] = start" "last [start..stop] = stop"
    using True by (simp_all add: hd_upto last_upto)
  moreover have "int (length [start..stop]) = (stop - start) + 1"
    using True by simp
  moreover have "sorted_wrt (<) [start..stop]"
    by (rule sorted_wrt_less_upto)
  moreover have "start = stop \<longrightarrow> [start..stop] = [start]"
    by simp
  ultimately show ?thesis using True by simp
next
  case False
  then have lt: "stop < start" by simp
  have "daterange start stop = Some (rev [stop..start], None)"
    using assms lt by (rule daterange_backward)
  moreover have "daterange stop start = Some ([stop..start], None)"
    using assms lt by (intro daterange_forward) simp_all
  moreover have "hd (rev [stop..start]) = start" "last (rev [stop..start]) = stop"
    using lt by (simp_all add: hd_rev last_rev hd_upto last_upto)
  moreover have "int (length (rev [stop..start])) = (start - stop) + 1"
    using lt by simp
  moreover have "sorted_wrt (>) (rev [stop..start])"
    by (rule sorted_wrt_greater_rev_upto)
  ultimately show ?thesis using lt by simp
qed

theorem daterange_inclusive_witness:
  "valid_date 739266 \<and> valid_date 739264 \<and>
   (\<exists>ys. daterange 739266 739264 = Some (ys, None) \<and> hd ys = 739266 \<and> last ys = 739264 \<and>
      int (length ys) = 3 \<and> sorted_wrt (>) ys \<and> ys = rev [739264..739266] \<and>
      daterange 739264 739266 = Some (rev ys, None))"
proof -
  have a: "valid_date 739266" and b: "valid_date 739264"
    by (simp_all add: valid_date_def MINORD_def MAXORD_def)
  show ?thesis
    using a b daterange_inclusive [OF a b] by auto
qed

text \<open>
  Claim C7. \<open>daterange\<close> terminates for every pair of endpoints, in either direction:
  the model returns a result for all arguments. For valid dates the iteration ends
  without an exception with the date \<open>stop\<close>, which occurs nowhere before the end, so
  the loop stops as soon as \<open>stop\<close> has been yielded.
\<close>

theorem daterange_terminates:
  "(\<exists>r. daterange start stop = Some r) \<and>
   (valid_date start \<and> valid_date stop \<longrightarrow>
      (\<exists>ys. daterange start stop = Some (ys, None) \<and> ys \<noteq> [] \<and> last ys = stop \<and>
            stop \<notin> set (butlast ys)))"
proof (intro conjI impI)
  show "\<exists>r. daterange start stop = Some r"
    by (rule daterange_returns)
next
  assume v: "valid_date start \<and> valid_date stop"
  show "\<exists>ys. daterange start stop = Some (ys, None) \<and> ys \<noteq> [] \<and> last ys = stop \<and>
          stop \<notin> set (butlast ys)"
  proof (cases "start \<le> stop")
    case True
    have "daterange start stop = Some ([start..stop], None)"
      using v True by (intro daterange_forward) simp_all
    moreover have "[start..stop] \<noteq> []" using True by simp
    moreover have "last [start..stop] = stop" using True by (rule last_upto)
    moreover have "stop \<notin> set (butlast [start..stop])"
      using True by (simp add: butlast_upto)
    ultimately show ?thesis by blast
  next
    case False
    then have lt: "stop < start" by simp
    have "daterange start stop = Some (rev [stop..start], None)"
      using v lt by (intro daterange_backward) simp_all
    moreover have "rev [stop..start] \<noteq> []" using lt by simp
    moreover have "last (rev [stop..start]) = stop"
      using lt by (simp add: last_rev hd_upto)
    moreover have "stop \<notin> set (butlast (rev [stop..start]))"
    proof -
      have "[stop..start] = stop # [stop + 1..start]"
        using lt by (simp add: upto_rec1)
      then have "butlast (rev [stop..start]) = rev [stop + 1..start]"
        by (simp add: butlast_rev)
      then show ?thesis by simp
    qed
    ultimately show ?thesis by blast
  qed
qed

theorem daterange_terminates_witness:
  "(\<exists>r. daterange 739264 739266 = Some r) \<and>
   valid_date 739264 \<and> valid_date 739266 \<and>
   (\<exists>ys. daterange 739264 739266 = Some (ys, None) \<and> ys \<noteq> [] \<and> last ys = 739266 \<and>
         739266 \<notin> set (butlast ys))"
proof -
  have v: "valid_date 739264 \<and> valid_date 739266"
    by (simp add: valid_date_def MINORD_def MAXORD_def)
  show ?thesis
    using v daterange_terminates [of 739264 739266] by blast
qed

section \<open>Properties of \<open>squash\<close>\<close>

lemma decode_utf8_ascii: "list_all (\<lambda>c. c < 128) bs \<Longrightarrow> decode_utf8 bs = Inr bs"
  by (induction bs) (simp_all add: bind_result_def)

lemma squash_value:
  "squash L x = Inr (strip (re_sub_ws (filter (\<lambda>c. c < 128) (nfkd L x))))"
  by (simp add: squash_def bind_result_def decode_utf8_ascii list_all_iff)

lemma wsnf_re_sub_ws: "wsnf (re_sub_ws s)"
proof (induction s rule: re_sub_ws.induct)
  case 1
  show ?case by simp
next
  case (2 c cs)
  show ?case
  proof (cases "is_space c")
    case True
    let ?t = "dropWhile is_space cs"
    have "re_sub_ws ?t \<noteq> [] \<longrightarrow> \<not> is_space (hd (re_sub_ws ?t))"
    proof (cases ?t)
      case Nil
      then show ?thesis by (simp del: dropWhile_eq_Nil_conv)
    next
      case (Cons d ds)
      then have "\<not> is_space d"
        using hd_dropWhile [of is_space cs] by simp
      with Cons show ?thesis by simp
    qed
    with True 2 show ?thesis by simp
  next
    case False
    with 2 show ?thesis by simp
  qed
qed

lemma re_sub_ws_wsnf: "wsnf s \<Longrightarrow> re_sub_ws s = s"
proof (induction s rule: re_sub_ws.induct)
  case 1
  show ?case by simp
next
  case (2 c cs)
  show ?case
  proof (cases "is_space c")
    case True
    with 2 have c: "c = 32" and nxt: "cs \<noteq> [] \<longrightarrow> \<not> is_space (hd cs)" and w: "wsnf cs"
      by simp_all
    from nxt have "dropWhile is_space cs = cs"
      by (cases cs) simp_all
    with True c w 2 show ?thesis by simp
  next
    case False
    with 2 show ?thesis by simp
  qed
qed

lemma wsnf_append_left: "wsnf (a @ b) \<Longrightarrow> wsnf a"
  by (induction a) (auto simp: hd_append split: if_splits)

lemma wsnf_append_right: "wsnf (a @ b) \<Longrightarrow> wsnf b"
  by (induction a) auto

lemma dropWhile_idem: "dropWhile P (dropWhile P xs) = dropWhile P xs"
  by (induction xs) auto

lemma strip_prefix: "dropWhile is_space s = strip s @ rev (takeWhile is_space (rev (dropWhile is_space s)))"
proof -
  let ?v = "dropWhile is_space s"
  have "rev (dropWhile is_space (rev ?v)) @ rev (takeWhile is_space (rev ?v))
        = rev (takeWhile is_space (rev ?v) @ dropWhile is_space (rev ?v))"
    by (simp only: rev_append)
  also have "\<dots> = ?v"
    by (simp only: takeWhile_dropWhile_id rev_rev_ident)
  finally show ?thesis
    by (simp only: strip_def)
qed

lemma wsnf_strip: "wsnf s \<Longrightarrow> wsnf (strip s)"
proof -
  assume w: "wsnf s"
  let ?u = "dropWhile is_space s"
  have "wsnf (takeWhile is_space s @ ?u)"
    using w by (simp only: takeWhile_dropWhile_id)
  then have u: "wsnf ?u" by (rule wsnf_append_right)
  then have "wsnf (strip s @ rev (takeWhile is_space (rev ?u)))"
    by (simp only: strip_prefix [symmetric])
  then show ?thesis by (rule wsnf_append_left)
qed

lemma dropWhile_strip: "dropWhile is_space (strip s) = strip s"
proof (cases "strip s")
  case Nil
  then show ?thesis by simp
next
  case (Cons c cs)
  obtain w where w: "dropWhile is_space s = strip s @ w"
    using strip_prefix [of s] by blast
  then have "dropWhile is_space s \<noteq> []" using Cons by simp
  then have "\<not> is_space (hd (dropWhile is_space s))"
    by (rule hd_dropWhile)
  moreover have "hd (dropWhile is_space s) = c"
    by (simp only: w Cons) simp
  ultimately have "\<not> is_space c" by simp
  with Cons show ?thesis by simp
qed

lemma strip_strip: "strip (strip s) = strip s"
proof -
  have "dropWhile is_space (rev (strip s)) = rev (strip s)"
    by (simp add: strip_def dropWhile_idem)
  then show ?thesis
    by (simp add: dropWhile_strip strip_def [of "strip s"])
qed

lemma norm_idem: "strip (re_sub_ws (strip (re_sub_ws s))) = strip (re_sub_ws s)"
proof -
  have "wsnf (strip (re_sub_ws s))"
    by (rule wsnf_strip) (rule wsnf_re_sub_ws)
  then have "re_sub_ws (strip (re_sub_ws s)) = strip (re_sub_ws s)"
    by (rule re_sub_ws_wsnf)
  then show ?thesis by (simp add: strip_strip)
qed

lemma strip_subset: "set (strip s) \<subseteq> set s"
proof -
  have "set (strip s) \<subseteq> set (strip s @ rev (takeWhile is_space (rev (dropWhile is_space s))))"
    by simp
  then have "set (strip s) \<subseteq> set (dropWhile is_space s)"
    by (simp only: strip_prefix [symmetric])
  moreover have "set (dropWhile is_space s) \<subseteq> set s"
    by (auto dest: set_dropWhileD)
  ultimately show ?thesis by (rule subset_trans)
qed

lemma re_sub_ws_subset: "set (re_sub_ws s) \<subseteq> insert 32 (set s)"
proof (induction s rule: re_sub_ws.induct)
  case 1
  show ?case by simp
next
  case (2 c cs)
  show ?case
  proof (cases "is_space c")
    case True
    then have "set (re_sub_ws (dropWhile is_space cs)) \<subseteq> insert 32 (set (dropWhile is_space cs))"
      by (rule 2(1))
    moreover have "set (dropWhile is_space cs) \<subseteq> set cs"
      by (auto dest: set_dropWhileD)
    ultimately have "set (re_sub_ws (dropWhile is_space cs)) \<subseteq> insert 32 (set cs)"
      by blast
    with True show ?thesis by auto
  next
    case False
    then have "set (re_sub_ws cs) \<subseteq> insert 32 (set cs)"
      by (rule 2(2))
    with False show ?thesis by auto
  qed
qed

lemma squash_ascii: "c \<in> set (strip (re_sub_ws (filter (\<lambda>c. c < 128) t))) \<Longrightarrow> c < 128"
proof -
  assume "c \<in> set (strip (re_sub_ws (filter (\<lambda>c. c < 128) t)))"
  then have "c \<in> set (re_sub_ws (filter (\<lambda>c. c < 128) t))"
    using strip_subset by blast
  then have "c \<in> insert 32 (set (filter (\<lambda>c. c < 128) t))"
    using re_sub_ws_subset by blast
  then show ?thesis by auto
qed

lemma squash_idem:
  assumes "\<forall>s. list_all (\<lambda>c. c < 128) s \<longrightarrow> nfkd L s = s"
  shows "squash L (strip (re_sub_ws (filter (\<lambda>c. c < 128) (nfkd L x))))
         = Inr (strip (re_sub_ws (filter (\<lambda>c. c < 128) (nfkd L x))))"
proof -
  define y where "y = strip (re_sub_ws (filter (\<lambda>c. c < 128) (nfkd L x)))"
  have asc: "\<forall>c\<in>set y. c < 128"
    unfolding y_def using squash_ascii by blast
  then have n: "nfkd L y = y"
    using assms by (simp add: list_all_iff)
  have f: "filter (\<lambda>c. c < 128) y = y"
    using asc by simp
  have i: "strip (re_sub_ws y) = y"
    unfolding y_def by (rule norm_idem)
  have "squash L y = Inr y"
    by (simp only: squash_value n f i)
  then show ?thesis by (simp only: y_def)
qed

lemma sample_nfkd_ascii: "list_all (\<lambda>c. c < 128) s \<Longrightarrow> sample_nfkd s = s"
  by (induction s) (simp_all add: sample_nfkd_def sample_decomp_def)

text \<open>
  Claim C2. \<open>squash\<close> never raises: it returns a string for every input. Its result is a
  fixed point, so \<open>squash\<close> is idempotent. The empty string is mapped to the empty
  string, and so is every input whose compatibility decomposition contains no ASCII
  character. The only fact used about the Unicode database is that NFKD leaves ASCII
  text unchanged.
\<close>

theorem squash_idempotent_total:
  assumes "\<forall>s. list_all (\<lambda>c. c < 128) s \<longrightarrow> nfkd L s = s"
  shows "\<exists>y. squash L x = Inr y \<and> squash L y = Inr y \<and>
             (x = [] \<longrightarrow> y = []) \<and>
             ((\<forall>c\<in>set (nfkd L x). 128 \<le> c) \<longrightarrow> y = [])"
proof -
  define y where "y = strip (re_sub_ws (filter (\<lambda>c. c < 128) (nfkd L x)))"
  have 1: "squash L x = Inr y"
    unfolding y_def by (rule squash_value)
  have 2: "squash L y = Inr y"
    unfolding y_def using assms by (rule squash_idem)
  have e: "nfkd L [] = []"
    using assms by simp
  have 3: "x = [] \<longrightarrow> y = []"
    by (simp add: y_def e strip_def)
  have 4: "(\<forall>c\<in>set (nfkd L x). 128 \<le> c) \<longrightarrow> y = []"
  proof
    assume "\<forall>c\<in>set (nfkd L x). 128 \<le> c"
    then have "filter (\<lambda>c. c < 128) (nfkd L x) = []"
      by (auto simp: filter_empty_conv)
    then show "y = []" by (simp add: y_def strip_def)
  qed
  from 1 2 3 4 show ?thesis by blast
qed

theorem squash_idempotent_total_witness:
  "squash sample_lib [] = Inr [] \<and>
   squash sample_lib [0x4E2D, 0x6587] = Inr [] \<and>
   (\<exists>y. squash sample_lib [32, 0x43, 0x72, 0xE9, 10, 9, 0x6D, 0xFF0C, 0xA0] = Inr y \<and>
        squash sample_lib y = Inr y)"
proof -
  have h: "\<forall>s. list_all (\<lambda>c. c < 128) s \<longrightarrow> nfkd sample_lib s = s"
    by (simp add: sample_lib_def sample_nfkd_ascii)
  have n: "\<forall>c\<in>set (nfkd sample_lib [0x4E2D, 0x6587]). 128 \<le> c"
    by (simp add: sample_lib_def sample_nfkd_def sample_decomp_def)
  have 1: "squash sample_lib [] = Inr []"
    using squash_idempotent_total [OF h, of "[]"] by auto
  have 2: "squash sample_lib [0x4E2D, 0x6587] = Inr []"
    using n squash_idempotent_total [OF h, of "[0x4E2D, 0x6587]"] by auto
  have 3: "\<exists>y. squash sample_lib [32, 0x43, 0x72, 0xE9, 10, 9, 0x6D, 0xFF0C, 0xA0] = Inr y \<and>
               squash sample_lib y = Inr y"
    using squash_idempotent_total [OF h, of "[32, 0x43, 0x72, 0xE9, 10, 9, 0x6D, 0xFF0C, 0xA0]"]
    by blast
  from 1 2 3 show ?thesis by blast
qed

section \<open>Evaluation of the examples\<close>

lemmas str_defs = asc_def is_space_def strip_def ci_eq_def is_boilerplate_def is_quote_def
  index0_def bind_result_def truthy_def strip_delims_def
lemmas dom_defs = is_tag_def get_attr_def find_all_def find_first_def all_strings_def
  stripped_strings_def get_text_def get_text_strip_def has_class_def select_inline_flex_def
  select_bg_style_def first_of_def cards_of_def
lemmas lib_defs = sample_lib_def sample_nfkd_def sample_decomp_def sample_isalnum_def
  sample_urljoin_def sample_urlparse_path_def sample_slugify_def url_origin_def
  ascii_alnum_def ascii_lower_def BASE_def
lemmas card_defs = extract_card_def card_description_def description_lines_def card_diet_def
  card_dish_type_def card_image_def resolve_img_def img_tag_url_def bg_url_def url_here_def
  squash_def make_card_def

lemma ex_card_extract:
  "extract_card sample_lib ex_card = Inr (Some (asc ''Pasta Bolognese'', asc ''Vegan'',
     asc ''Hauptgericht'', asc ''https://mensa.fachschaft.tf/img/pasta.jpg''))"
  by (simp add: ex_card_def card_defs str_defs dom_defs lib_defs)

lemma bad_card_bg: "bg_url bad_card = Some (asc ''/img/x.jpg'')"
  by (simp add: bad_card_def card_defs str_defs dom_defs)

lemma bad_card_resolve: "resolve_img bad_card = Inl IndexError"
  by (simp add: bad_card_def card_defs str_defs dom_defs)

lemma bad_card_extract: "extract_card sample_lib bad_card = Inl IndexError"
  by (simp add: bad_card_def card_defs str_defs dom_defs lib_defs)

lemma card_jpg_extract:
  "extract_card sample_lib card_jpg = Inr (Some (asc ''Pasta'', asc ''Vegan'',
     asc ''Hauptgericht'', asc ''https://mensa.fachschaft.tf/img/a.jpg''))"
  by (simp add: card_jpg_def card_defs str_defs dom_defs lib_defs)

lemma card_png_extract:
  "extract_card sample_lib card_png = Inr (Some (asc ''Pizza'', asc ''Vegan'',
     asc ''Hauptgericht'', asc ''https://mensa.fachschaft.tf/img/b.png''))"
  by (simp add: card_png_def card_defs str_defs dom_defs lib_defs)

lemma card_jpg2_extract:
  "extract_card sample_lib card_jpg2 = Inr (Some (asc ''Risotto'', asc ''Vegan'',
     asc ''Hauptgericht'', asc ''https://mensa.fachschaft.tf/img/c.jpg''))"
  by (simp add: card_jpg2_def card_defs str_defs dom_defs lib_defs)

lemma comma_card_extract:
  "extract_card sample_lib comma_card = Inr (Some (asc ''Reis,Curry'', asc ''Vegan'',
     asc ''Hauptgericht'', asc ''https://mensa.fachschaft.tf/img/a.jpg''))"
  by (simp add: comma_card_def card_defs str_defs dom_defs lib_defs)

section \<open>Properties of the scraper\<close>

lemma squash_ascii_input:
  assumes "\<forall>s. list_all (\<lambda>c. c < 128) s \<longrightarrow> nfkd L s = s" and "list_all (\<lambda>c. c < 128) s"
  shows "squash L s = Inr (strip (re_sub_ws s))"
proof -
  have "nfkd L s = s" using assms by simp
  moreover have "filter (\<lambda>c. c < 128) s = s"
    using assms(2) by (simp add: list_all_iff)
  ultimately show ?thesis by (simp add: squash_value)
qed

lemma example_heading:
  "is_heading L (Tag (asc ''h2'') [] [NavigableString (asc ''Mensa Academica'')])"
  by (simp add: is_heading_def re_search_mensa_def mensa_here_def word_boundary_def is_word_def
      is_tag_def ci_eq_def asc_def)

lemma page_headings:
  assumes "headings L (concat (map (\<lambda>k. k # descendants k) cs)) = []"
  shows "headings L (descendants (page_of_cards cs)) =
           [(Tag (asc ''h2'') [] [NavigableString (asc ''Mensa Academica'')],
             Some (Tag (asc ''div'') [] cs))]"
proof -
  have "\<not> is_heading L (NavigableString (asc ''Mensa Academica''))"
    by (simp add: is_heading_def is_tag_def)
  moreover have "\<not> is_heading L (Tag (asc ''div'') [] cs)"
    by (simp add: is_heading_def is_tag_def asc_def)
  moreover have "is_tag (asc ''div'') (Tag (asc ''div'') [] cs)"
    by (simp add: is_tag_def)
  moreover have "\<not> is_tag (asc ''div'') (NavigableString (asc ''Mensa Academica''))"
    by (simp add: is_tag_def)
  ultimately show ?thesis
    using assms example_heading [of L]
    by (simp add: page_of_cards_def first_of_def)
qed

lemma example_mensa_name:
  assumes "\<forall>s. list_all (\<lambda>c. c < 128) s \<longrightarrow> nfkd L s = s"
  shows "mensa_name L (Tag (asc ''h2'') [] [NavigableString (asc ''Mensa Academica'')])
         = Inr (asc ''Mensa Academica'')"
proof -
  have g: "get_text (Tag (asc ''h2'') [] [NavigableString (asc ''Mensa Academica'')])
           = asc ''Mensa Academica''"
    by (simp add: get_text_def all_strings_def)
  have a: "list_all (\<lambda>c. c < 128) (asc ''Mensa Academica'')"
    by (simp add: asc_def)
  have "squash L (asc ''Mensa Academica'') = Inr (strip (re_sub_ws (asc ''Mensa Academica'')))"
    using assms a by (rule squash_ascii_input)
  also have "strip (re_sub_ws (asc ''Mensa Academica'')) = asc ''Mensa Academica''"
    by (simp add: asc_def strip_def is_space_def)
  finally show ?thesis
    by (simp add: mensa_name_def g bind_result_def) (simp add: strip_delims_def asc_def)
qed

lemma sample_nfkd_hyp: "\<forall>s. list_all (\<lambda>c. c < 128) s \<longrightarrow> nfkd sample_lib s = s"
  by (simp add: sample_lib_def sample_nfkd_ascii)

lemma description_lines_boilerplate:
  "list_all is_boilerplate (stripped_strings p_tag) \<Longrightarrow> description_lines p_tag = []"
  by (simp add: description_lines_def list_all_iff filter_empty_conv)

text \<open>
  Claim C9. A card whose description block exists and whose stripped strings all match
  the boilerplate pattern is skipped: the iteration for it changes neither the state
  nor the rows, whatever its other fields are, and no exception is raised.
\<close>

theorem boilerplate_card_skipped:
  assumes "first_of (select_text_sm_p crd) = Some p_tag"
    and "list_all is_boilerplate (stripped_strings p_tag)"
  shows "process_card L W out_dir day mensa crd st = (st, Inr None) \<and>
         cards_loop L W out_dir day mensa (crd # cards) st rows =
           cards_loop L W out_dir day mensa cards st rows"
proof -
  have "description_lines p_tag = []"
    using assms(2) by (rule description_lines_boilerplate)
  then have "card_description L crd = Inr None"
    using assms(1) by (simp add: card_description_def)
  then have "extract_card L crd = Inr None"
    by (simp add: extract_card_def bind_result_def)
  then have "process_card L W out_dir day mensa crd st = (st, Inr None)"
    by (simp add: process_card_def)
  then show ?thesis by simp
qed

lemma boiler_card_p:
  "first_of (select_text_sm_p boiler_card) =
     Some (Tag (asc ''p'') []
       [NavigableString (asc ''Beilagensalat optional''), Tag (asc ''br'') [] [],
        NavigableString (asc ''REGIO-APFEL dazu''), Tag (asc ''br'') [] []])"
  by (simp add: boiler_card_def make_card_def str_defs dom_defs)

lemma boiler_card_lines:
  "list_all is_boilerplate (stripped_strings (Tag (asc ''p'') []
       [NavigableString (asc ''Beilagensalat optional''), Tag (asc ''br'') [] [],
        NavigableString (asc ''REGIO-APFEL dazu''), Tag (asc ''br'') [] []]))"
  by (simp add: str_defs dom_defs)

theorem boilerplate_card_skipped_witness:
  "process_card sample_lib (const_world (page_of_cards [boiler_card]) Fetched)
     (parse_path (asc ''images'')) 739266 (asc ''Mensa Academica'') boiler_card st0 = (st0, Inr None)"
  using boilerplate_card_skipped [OF boiler_card_p boiler_card_lines] by blast

text \<open>
  Claim C3, evaluated at a card whose image element has only a \<open>srcset\<close> of one space
  and which carries a background image. The fourth rule would resolve the URL
  \<open>/img/x.jpg\<close>, but the third rule raises \<open>IndexError\<close>, and so does the extraction of
  the card.
\<close>

theorem srcset_without_token_raises:
  "bg_url bad_card = Some (asc ''/img/x.jpg'') \<and>
   resolve_img bad_card = Inl IndexError \<and>
   extract_card sample_lib bad_card = Inl IndexError"
  by (simp add: bad_card_bg bad_card_resolve bad_card_extract)

lemma no_headings_bad_ex:
  "headings L (concat (map (\<lambda>k. k # descendants k) [bad_card, ex_card])) = []"
  by (simp add: bad_card_def ex_card_def make_card_def is_heading_def is_tag_def asc_def)

lemma cards_of_bad_ex:
  "cards_of (Tag (asc ''div'') [] [bad_card, ex_card]) = [bad_card, ex_card]"
  by (simp add: bad_card_def ex_card_def make_card_def cards_of_def is_tag_def get_attr_def asc_def)

lemma range_2: "daterange 739266 739267 = Some ([739266, 739267], None)"
proof -
  have "daterange 739266 739267 = Some ([739266..739267], None)"
    by (rule daterange_forward) (simp_all add: valid_date_def MINORD_def MAXORD_def)
  then show ?thesis by simp
qed

text \<open>
  Claim C4, evaluated at a run over two days whose page holds that card followed by
  a well-formed one: the exception leaves \<open>scrape\<close>, no row is returned and nothing is
  fetched.
\<close>

theorem malformed_card_aborts_run:
  "scrape sample_lib (const_world (page_of_cards [bad_card, ex_card]) Fetched)
     739266 739267 (parse_path (asc ''images'')) st0 = Some (st0, Inl IndexError)"
proof -
  have p: "process_card sample_lib (const_world (page_of_cards [bad_card, ex_card]) Fetched)
             (parse_path (asc ''images'')) 739266 (asc ''Mensa Academica'') bad_card st0
           = (st0, Inl IndexError)"
    by (simp add: process_card_def bad_card_extract)
  show ?thesis
    by (simp add: scrape_def range_2 const_world_def page_headings [OF no_headings_bad_ex]
        example_mensa_name [OF sample_nfkd_hyp] cards_of_bad_ex p [unfolded const_world_def])
qed

lemma range_1: "valid_date day \<Longrightarrow> daterange day day = Some ([day], None)"
  using daterange_forward [of day day] by simp

lemma process_card_eval:
  assumes "extract_card L crd = Inr (Some (description, diet, dish_type, img_url))"
    and "urlparse_path L img_url = Inr url_path"
  shows "process_card L W out_dir day mensa crd st =
           (fst (download W (image_path L out_dir day mensa dish_type (image_ext url_path)) img_url st),
            Inr (if snd (download W (image_path L out_dir day mensa dish_type (image_ext url_path)) img_url st)
                 then Some [description, asc ''no'', asc ''no'', dish_type, diet, mensa,
                            path_str (image_path L out_dir day mensa dish_type (image_ext url_path))]
                 else None))"
  using assms by (simp add: process_card_def Let_def split: prod.splits)

lemma ex_card_description:
  assumes "\<forall>s. list_all (\<lambda>c. c < 128) s \<longrightarrow> nfkd L s = s"
  shows "card_description L ex_card = Inr (Some (asc ''Pasta Bolognese''))"
proof -
  have p: "first_of (select_text_sm_p ex_card) =
             Some (Tag (asc ''p'') []
               [NavigableString (asc ''Pasta Bolognese''), Tag (asc ''br'') [] [],
                NavigableString (asc ''Beilagensalat optional''), Tag (asc ''br'') [] []])"
    by (simp add: ex_card_def make_card_def str_defs dom_defs)
  have l: "description_lines (Tag (asc ''p'') []
               [NavigableString (asc ''Pasta Bolognese''), Tag (asc ''br'') [] [],
                NavigableString (asc ''Beilagensalat optional''), Tag (asc ''br'') [] []])
           = [asc ''Pasta Bolognese'']"
    by (simp add: description_lines_def str_defs dom_defs)
  have r: "strip_delims (replace_str (asc ''-------------'') (asc '' '')
             (asc ''Pasta Bolognese'')) = asc ''Pasta Bolognese''"
    by (simp add: strip_delims_def asc_def)
  have a: "list_all (\<lambda>c. c < 128) (asc ''Pasta Bolognese'')"
    by (simp add: asc_def)
  have "squash L (asc ''Pasta Bolognese'') = Inr (strip (re_sub_ws (asc ''Pasta Bolognese'')))"
    using assms a by (rule squash_ascii_input)
  also have "strip (re_sub_ws (asc ''Pasta Bolognese'')) = asc ''Pasta Bolognese''"
    by (simp add: asc_def strip_def is_space_def)
  finally have s: "squash L (asc ''Pasta Bolognese'') = Inr (asc ''Pasta Bolognese'')" .
  show ?thesis
    by (simp add: card_description_def p l r s bind_result_def)
qed

lemma ex_card_fields:
  "card_diet ex_card = asc ''Vegan''"
  "card_dish_type ex_card = asc ''Hauptgericht''"
  "resolve_img ex_card = Inr (Some (asc ''/img/pasta.jpg''))"
  by (simp_all add: ex_card_def card_defs str_defs dom_defs)

lemma ex_card_extract_lib:
  assumes "\<forall>s. list_all (\<lambda>c. c < 128) s \<longrightarrow> nfkd L s = s"
    and "urljoin L BASE (asc ''/img/pasta.jpg'') = Inr (asc ''https://mensa.fachschaft.tf/img/pasta.jpg'')"
  shows "extract_card L ex_card = Inr (Some (asc ''Pasta Bolognese'', asc ''Vegan'',
           asc ''Hauptgericht'', asc ''https://mensa.fachschaft.tf/img/pasta.jpg''))"
proof -
  have "card_image L ex_card = Inr (Some (asc ''https://mensa.fachschaft.tf/img/pasta.jpg''))"
    using assms(2) by (simp add: card_image_def ex_card_fields bind_result_def truthy_def asc_def)
  then show ?thesis
    by (simp add: extract_card_def ex_card_description [OF assms(1)] ex_card_fields bind_result_def)
qed

lemma no_headings_ex: "headings L (concat (map (\<lambda>k. k # descendants k) [ex_card])) = []"
  by (simp add: ex_card_def make_card_def is_heading_def is_tag_def asc_def)

lemma cards_of_ex: "cards_of (Tag (asc ''div'') [] [ex_card]) = [ex_card]"
  by (simp add: ex_card_def make_card_def cards_of_def is_tag_def get_attr_def asc_def)

lemma image_ext_jpg: "image_ext (asc ''/img/pasta.jpg'') = asc ''.jpg''"
  by (simp add: image_ext_def path_suffix_def rfind_def parse_path_def asc_def)

lemma download_ok:
  assumes "fpath \<in> files st \<or> fetch W (length (requests st)) img_url = Fetched"
  shows "snd (download W fpath img_url st)"
  using assms by (auto simp: download_def Let_def)

text \<open>
  Claim C8, as amended. The page has one heading \<open>Mensa Academica\<close> followed by a
  container with the card of the example (description strings \<open>Pasta Bolognese\<close> and
  \<open>Beilagensalat optional\<close>, badge \<open>Vegan\<close>, label \<open>Hauptgericht\<close>, image source
  \<open>/img/pasta.jpg\<close>). Provided that the image file already exists or its download
  succeeds, a run over that single day returns exactly the row of the example, whose
  last field is the path \<open>out_dir / date / mensa-academica_hauptgericht.jpg\<close>. The
  assumptions on the library are the values of \<open>urljoin\<close>, \<open>urlparse\<close> and \<open>slugify\<close> at the
  strings of the example.
\<close>

theorem example_row:
  assumes "\<forall>s. list_all (\<lambda>c. c < 128) s \<longrightarrow> nfkd L s = s"
    and "urljoin L BASE (asc ''/img/pasta.jpg'') = Inr (asc ''https://mensa.fachschaft.tf/img/pasta.jpg'')"
    and "urlparse_path L (asc ''https://mensa.fachschaft.tf/img/pasta.jpg'') = Inr (asc ''/img/pasta.jpg'')"
    and "slugify L (asc ''Mensa Academica'') = asc ''mensa-academica''"
    and "slugify L (asc ''Hauptgericht'') = asc ''hauptgericht''"
    and "valid_date day"
    and "goto W (day_url day) = Some (page_of_cards [ex_card])"
    and "joinpath (joinpath out_dir (isoformat day)) (asc ''mensa-academica_hauptgericht.jpg'') \<in> files st \<or>
         fetch W (length (requests st)) (asc ''https://mensa.fachschaft.tf/img/pasta.jpg'') = Fetched"
  shows "\<exists>st'. scrape L W day day out_dir st =
           Some (st', Inr [[asc ''Pasta Bolognese'', asc ''no'', asc ''no'', asc ''Hauptgericht'',
                            asc ''Vegan'', asc ''Mensa Academica'',
                            path_str (joinpath (joinpath out_dir (isoformat day))
                                        (asc ''mensa-academica_hauptgericht.jpg''))]])"
proof -
  let ?f = "joinpath (joinpath out_dir (isoformat day)) (asc ''mensa-academica_hauptgericht.jpg'')"
  let ?u = "asc ''https://mensa.fachschaft.tf/img/pasta.jpg''"
  have ip: "image_path L out_dir day (asc ''Mensa Academica'') (asc ''Hauptgericht'') (asc ''.jpg'') = ?f"
    using assms(4,5) by (simp add: image_path_def asc_def)
  have ok: "snd (download W ?f ?u st)"
    using assms(8) by (rule download_ok)
  have pc: "process_card L W out_dir day (asc ''Mensa Academica'') ex_card st =
              (fst (download W ?f ?u st),
               Inr (Some [asc ''Pasta Bolognese'', asc ''no'', asc ''no'', asc ''Hauptgericht'',
                          asc ''Vegan'', asc ''Mensa Academica'', path_str ?f]))"
    using ok
    by (simp add: process_card_eval [OF ex_card_extract_lib [OF assms(1,2)] assms(3)]
        image_ext_jpg ip)
  show ?thesis
    by (simp add: scrape_def range_1 [OF assms(6)] assms(7) page_headings [OF no_headings_ex]
        example_mensa_name [OF assms(1)] cards_of_ex pc)
qed

lemma iso_739266: "isoformat 739266 = asc ''2025-01-15''"
proof -
  have "ord2ymd 739266 = (2025, 1, 15)"
    unfolding ord2ymd_def Let_def by simp
  then show ?thesis
    by (simp add: isoformat_def digit_def asc_def)
qed

lemma sample_facts:
  "urljoin sample_lib BASE (asc ''/img/pasta.jpg'') = Inr (asc ''https://mensa.fachschaft.tf/img/pasta.jpg'')"
  "urlparse_path sample_lib (asc ''https://mensa.fachschaft.tf/img/pasta.jpg'') = Inr (asc ''/img/pasta.jpg'')"
  "slugify sample_lib (asc ''Mensa Academica'') = asc ''mensa-academica''"
  "slugify sample_lib (asc ''Hauptgericht'') = asc ''hauptgericht''"
  by (simp_all add: lib_defs asc_def)

lemma example_image_file:
  "joinpath (joinpath (parse_path (asc ''images'')) (isoformat 739266))
     (asc ''mensa-academica_hauptgericht.jpg'')
   = Path [] [asc ''images'', asc ''2025-01-15'', asc ''mensa-academica_hauptgericht.jpg'']"
  by (simp add: iso_739266 joinpath_def parse_path_def asc_def)

theorem example_row_witness:
  "\<exists>st'. scrape sample_lib (const_world (page_of_cards [ex_card]) Fetched) 739266 739266
           (parse_path (asc ''images'')) st0 =
         Some (st', Inr [[asc ''Pasta Bolognese'', asc ''no'', asc ''no'', asc ''Hauptgericht'',
                          asc ''Vegan'', asc ''Mensa Academica'',
                          asc ''images/2025-01-15/mensa-academica_hauptgericht.jpg'']])"
proof -
  have v: "valid_date 739266"
    by (simp add: valid_date_def MINORD_def MAXORD_def)
  have g: "goto (const_world (page_of_cards [ex_card]) Fetched) (day_url 739266)
           = Some (page_of_cards [ex_card])"
    by (simp add: const_world_def)
  have f: "joinpath (joinpath (parse_path (asc ''images'')) (isoformat 739266))
             (asc ''mensa-academica_hauptgericht.jpg'') \<in> files st0 \<or>
           fetch (const_world (page_of_cards [ex_card]) Fetched) (length (requests st0))
             (asc ''https://mensa.fachschaft.tf/img/pasta.jpg'') = Fetched"
    by (simp add: const_world_def)
  have s: "path_str (Path [] [asc ''images'', asc ''2025-01-15'', asc ''mensa-academica_hauptgericht.jpg''])
           = asc ''images/2025-01-15/mensa-academica_hauptgericht.jpg''"
    by (simp add: path_str_def asc_def)
  show ?thesis
    using example_row [OF sample_nfkd_hyp sample_facts v g f]
    by (simp only: example_image_file s)
qed

text \<open>
  Claim C8 as stated fails when the download fails: the same page then gives no row.
\<close>

theorem example_row_needs_download:
  "scrape sample_lib (const_world (page_of_cards [ex_card]) GetFailed) 739266 739266
     (parse_path (asc ''images'')) st0 =
   Some (\<lparr> files = {},
           requests = [(Path [] [asc ''images'', asc ''2025-01-15'',
                                 asc ''mensa-academica_hauptgericht.jpg''],
                        asc ''https://mensa.fachschaft.tf/img/pasta.jpg'')] \<rparr>,
         Inr [])"
proof -
  have v: "valid_date 739266"
    by (simp add: valid_date_def MINORD_def MAXORD_def)
  have ip: "image_path sample_lib (parse_path (asc ''images'')) 739266 (asc ''Mensa Academica'')
              (asc ''Hauptgericht'') (asc ''.jpg'')
            = Path [] [asc ''images'', asc ''2025-01-15'', asc ''mensa-academica_hauptgericht.jpg'']"
    by (simp add: image_path_def sample_facts) (simp add: iso_739266 joinpath_def parse_path_def asc_def)
  have pc: "process_card sample_lib (const_world (page_of_cards [ex_card]) GetFailed)
              (parse_path (asc ''images'')) 739266 (asc ''Mensa Academica'') ex_card st0 =
            (\<lparr> files = {},
               requests = [(Path [] [asc ''images'', asc ''2025-01-15'',
                                     asc ''mensa-academica_hauptgericht.jpg''],
                            asc ''https://mensa.fachschaft.tf/img/pasta.jpg'')] \<rparr>, Inr None)"
    by (simp add: process_card_eval [OF ex_card_extract sample_facts(2)] image_ext_jpg ip
        download_def const_world_def st0_def)
  show ?thesis
    by (simp add: scrape_def range_1 [OF v] const_world_def page_headings [OF no_headings_ex]
        example_mensa_name [OF sample_nfkd_hyp] cards_of_ex pc [unfolded const_world_def])
qed

lemma single_day_run:
  assumes "valid_date day"
    and "\<forall>s. list_all (\<lambda>c. c < 128) s \<longrightarrow> nfkd L s = s"
    and "goto W (day_url day) = Some (page_of_cards cs)"
    and "headings L (concat (map (\<lambda>k. k # descendants k) cs)) = []"
  shows "scrape L W day day out_dir st =
           Some (cards_loop L W out_dir day (asc ''Mensa Academica'')
                   (cards_of (Tag (asc ''div'') [] cs)) st [])"
  by (simp add: scrape_def range_1 [OF assms(1)] assms(3) page_headings [OF assms(4)]
      example_mensa_name [OF assms(2)] split: prod.splits sum.splits)

lemma replace_str_removes:
  "c \<notin> set new \<Longrightarrow> c \<notin> set (replace_str [c] new s)"
  by (induction "[c]" new s rule: replace_str.induct) auto

lemma replace_str_subset:
  "set (replace_str old new s) \<subseteq> set s \<union> set new"
proof (induction old new s rule: replace_str.induct)
  case (1 old new)
  show ?case by auto
next
  case (2 old new c cs)
  have "set (drop (length old) (c # cs)) \<subseteq> set (c # cs)"
    by (rule set_drop_subset)
  with 2 show ?case by (auto split: if_splits)
qed

lemma delim_free_strip_delims: "delim_free (strip_delims s)"
proof -
  let ?t = "replace_str (asc '','') (asc '' '') s"
  have a: "44 \<notin> set ?t"
    using replace_str_removes [of 44 "asc '' ''" s] by (simp add: asc_def)
  have "set (replace_str (asc '';'') (asc '' '') ?t) \<subseteq> set ?t \<union> set (asc '' '')"
    by (rule replace_str_subset)
  with a have "44 \<notin> set (replace_str (asc '';'') (asc '' '') ?t)"
    by (auto simp: asc_def)
  moreover have "59 \<notin> set (replace_str (asc '';'') (asc '' '') ?t)"
    using replace_str_removes [of 59 "asc '' ''" ?t] by (simp add: asc_def)
  ultimately show ?thesis
    by (simp add: delim_free_def strip_delims_def)
qed

lemma mensa_name_delim_free: "mensa_name L h2 = Inr mensa \<Longrightarrow> delim_free mensa"
  by (auto simp: mensa_name_def squash_value bind_result_def delim_free_strip_delims)

lemma extract_card_delim_free:
  assumes "extract_card L crd = Inr (Some (description, diet, dish_type, img_url))"
  shows "delim_free diet \<and> delim_free dish_type"
proof -
  have "diet = card_diet crd \<and> dish_type = card_dish_type crd"
    using assms
    by (auto simp: extract_card_def bind_result_def Let_def split: sum.splits option.splits)
  then show ?thesis
    by (simp add: card_diet_def card_dish_type_def delim_free_strip_delims)
qed

lemma process_card_row:
  assumes "process_card L W out_dir day mensa crd st = (st', Inr (Some row))"
    and "delim_free mensa"
  shows "row_shape row"
proof -
  obtain description diet dish_type img_url where
    e: "extract_card L crd = Inr (Some (description, diet, dish_type, img_url))"
    using assms(1)
    by (auto simp: process_card_def split: sum.splits option.splits)
  obtain url_path where u: "urlparse_path L img_url = Inr url_path"
    using assms(1) e by (auto simp: process_card_def split: sum.splits)
  have "row = [description, asc ''no'', asc ''no'', dish_type, diet, mensa,
               path_str (image_path L out_dir day mensa dish_type (image_ext url_path))]"
    using assms(1) by (simp add: process_card_eval [OF e u] split: if_splits)
  moreover have "delim_free diet \<and> delim_free dish_type"
    using e by (rule extract_card_delim_free)
  moreover have "delim_free (asc ''no'')"
    by (simp add: delim_free_def asc_def)
  ultimately show ?thesis
    using assms(2) by (simp add: row_shape_def)
qed

lemma cards_loop_rows:
  assumes "cards_loop L W out_dir day mensa cards st rows0 = (st', Inr rows)"
    and "delim_free mensa" and "list_all row_shape rows0"
  shows "list_all row_shape rows"
  using assms
proof (induction cards arbitrary: st rows0)
  case Nil
  then show ?case by simp
next
  case (Cons crd cards)
  obtain st1 r where p: "process_card L W out_dir day mensa crd st = (st1, r)"
    by (cases "process_card L W out_dir day mensa crd st")
  show ?case
  proof (cases r)
    case (Inl e)
    with Cons.prems(1) p show ?thesis by simp
  next
    case (Inr ro)
    show ?thesis
    proof (cases ro)
      case None
      with Cons p Inr show ?thesis by simp
    next
      case (Some row)
      have "row_shape row"
        using p Inr Some Cons.prems(2) process_card_row by blast
      with Cons.prems(3) have "list_all row_shape (rows0 @ [row])" by simp
      moreover have "cards_loop L W out_dir day mensa cards st1 (rows0 @ [row]) = (st', Inr rows)"
        using Cons.prems(1) p Inr Some by simp
      ultimately show ?thesis
        using Cons.IH Cons.prems(2) by blast
    qed
  qed
qed

lemma headings_loop_rows:
  assumes "headings_loop L W out_dir day hs st rows0 = (st', Inr rows)"
    and "list_all row_shape rows0"
  shows "list_all row_shape rows"
  using assms
proof (induction hs arbitrary: st rows0)
  case Nil
  then show ?case by simp
next
  case (Cons h hs)
  obtain h2 container where h: "h = (h2, container)" by (cases h)
  show ?case
  proof (cases "mensa_name L h2")
    case (Inl e)
    with Cons.prems(1) h show ?thesis by simp
  next
    case (Inr mensa)
    then have df: "delim_free mensa" by (rule mensa_name_delim_free)
    show ?thesis
    proof (cases container)
      case None
      with Cons h Inr show ?thesis by simp
    next
      case (Some c)
      obtain st1 r where cl: "cards_loop L W out_dir day mensa (cards_of c) st rows0 = (st1, r)"
        by (cases "cards_loop L W out_dir day mensa (cards_of c) st rows0")
      show ?thesis
      proof (cases r)
        case (Inl e)
        with Cons.prems(1) h Inr Some cl show ?thesis by simp
      next
        case r: (Inr rows1)
        have "list_all row_shape rows1"
          using cl r df Cons.prems(2) cards_loop_rows by blast
        moreover have "headings_loop L W out_dir day hs st1 rows1 = (st', Inr rows)"
          using Cons.prems(1) h Inr Some cl r by simp
        ultimately show ?thesis using Cons.IH by blast
      qed
    qed
  qed
qed

lemma days_loop_rows:
  assumes "days_loop L W out_dir days st rows0 = (st', Inr rows)"
    and "list_all row_shape rows0"
  shows "list_all row_shape rows"
  using assms
proof (induction days arbitrary: st rows0)
  case Nil
  then show ?case by simp
next
  case (Cons day days)
  show ?case
  proof (cases "goto W (day_url day)")
    case None
    with Cons show ?thesis by simp
  next
    case (Some soup)
    obtain st1 r where hl:
      "headings_loop L W out_dir day (headings L (descendants soup)) st rows0 = (st1, r)"
      by (cases "headings_loop L W out_dir day (headings L (descendants soup)) st rows0")
    show ?thesis
    proof (cases r)
      case (Inl e)
      with Cons.prems(1) Some hl show ?thesis by simp
    next
      case (Inr rows1)
      have "list_all row_shape rows1"
        using hl Inr Cons.prems(2) headings_loop_rows by blast
      moreover have "days_loop L W out_dir days st1 rows1 = (st', Inr rows)"
        using Cons.prems(1) Some hl Inr by simp
      ultimately show ?thesis using Cons.IH by blast
    qed
  qed
qed

lemma scrape_days_loop:
  assumes "scrape L W start stop out_dir st = Some (st', Inr rows)"
  shows "\<exists>days. daterange start stop = Some (days, None) \<and>
               days_loop L W out_dir days st [] = (st', Inr rows)"
  using assms
  by (auto simp: scrape_def split: option.splits prod.splits sum.splits)

lemma csv_rows_shape_general:
  assumes "scrape L W start stop out_dir st = Some (st', Inr rows)"
  shows "save_csv rows = csv_header # rows \<and> length csv_header = 7 \<and> list_all row_shape rows"
proof -
  obtain days where "days_loop L W out_dir days st [] = (st', Inr rows)"
    using assms scrape_days_loop by blast
  then have "list_all row_shape rows"
    using days_loop_rows by fastforce
  then show ?thesis by (simp add: save_csv_def csv_header_def)
qed

lemma valid_739266: "valid_date 739266"
  by (simp add: valid_date_def MINORD_def MAXORD_def)

lemma sample_single_day:
  assumes "headings sample_lib (concat (map (\<lambda>k. k # descendants k) cs)) = []"
  shows "scrape sample_lib (const_world (page_of_cards cs) r) 739266 739266 out_dir st =
           Some (cards_loop sample_lib (const_world (page_of_cards cs) r) out_dir 739266
                   (asc ''Mensa Academica'') (cards_of (Tag (asc ''div'') [] cs)) st [])"
  by (rule single_day_run [OF valid_739266 sample_nfkd_hyp _ assms]) (simp add: const_world_def)

lemma sample_urlparse:
  "urlparse_path sample_lib (asc ''https://mensa.fachschaft.tf/img/a.jpg'') = Inr (asc ''/img/a.jpg'')"
  "urlparse_path sample_lib (asc ''https://mensa.fachschaft.tf/img/b.png'') = Inr (asc ''/img/b.png'')"
  "urlparse_path sample_lib (asc ''https://mensa.fachschaft.tf/img/c.jpg'') = Inr (asc ''/img/c.jpg'')"
  by (simp_all add: lib_defs asc_def)

lemma sample_image_ext:
  "image_ext (asc ''/img/a.jpg'') = asc ''.jpg''"
  "image_ext (asc ''/img/b.png'') = asc ''.png''"
  "image_ext (asc ''/img/c.jpg'') = asc ''.jpg''"
  by (simp_all add: image_ext_def path_suffix_def rfind_def parse_path_def asc_def)

lemma sample_image_path:
  "image_path sample_lib (parse_path (asc ''images'')) 739266 (asc ''Mensa Academica'')
     (asc ''Hauptgericht'') (asc ''.jpg'') = jpg_file"
  "image_path sample_lib (parse_path (asc ''images'')) 739266 (asc ''Mensa Academica'')
     (asc ''Hauptgericht'') (asc ''.png'') = png_file"
  by (simp_all add: image_path_def sample_facts jpg_file_def png_file_def)
     (simp_all add: iso_739266 joinpath_def parse_path_def asc_def)

lemma sample_path_str:
  "path_str jpg_file = asc ''images/2025-01-15/mensa-academica_hauptgericht.jpg''"
  "path_str png_file = asc ''images/2025-01-15/mensa-academica_hauptgericht.png''"
  by (simp_all add: path_str_def jpg_file_def png_file_def asc_def)

lemma files_differ: "jpg_file \<noteq> png_file"
  by (simp add: jpg_file_def png_file_def asc_def)

lemma no_headings_cards:
  "headings L (concat (map (\<lambda>k. k # descendants k) [card_jpg, card_png])) = []"
  "headings L (concat (map (\<lambda>k. k # descendants k) [card_jpg, card_jpg2])) = []"
  "headings L (concat (map (\<lambda>k. k # descendants k) [comma_card])) = []"
  by (simp_all add: card_jpg_def card_png_def card_jpg2_def comma_card_def make_card_def
      is_heading_def is_tag_def asc_def)

lemma cards_of_cards:
  "cards_of (Tag (asc ''div'') [] [card_jpg, card_png]) = [card_jpg, card_png]"
  "cards_of (Tag (asc ''div'') [] [card_jpg, card_jpg2]) = [card_jpg, card_jpg2]"
  "cards_of (Tag (asc ''div'') [] [comma_card]) = [comma_card]"
  by (simp_all add: card_jpg_def card_png_def card_jpg2_def comma_card_def make_card_def
      cards_of_def is_tag_def get_attr_def asc_def)

lemma sample_example_run:
  "scrape sample_lib (const_world (page_of_cards [ex_card]) Fetched) 739266 739266
     (parse_path (asc ''images'')) st0 =
   Some (\<lparr> files = {jpg_file},
           requests = [(jpg_file, asc ''https://mensa.fachschaft.tf/img/pasta.jpg'')] \<rparr>,
         Inr [[asc ''Pasta Bolognese'', asc ''no'', asc ''no'', asc ''Hauptgericht'',
               asc ''Vegan'', asc ''Mensa Academica'',
               asc ''images/2025-01-15/mensa-academica_hauptgericht.jpg'']])"
  by (subst sample_single_day [OF no_headings_ex])
     (simp add: cards_of_ex
      process_card_eval [OF ex_card_extract sample_facts(2)] image_ext_jpg sample_image_path
      sample_path_str download_def const_world_def st0_def)

lemma sample_two_extensions_run:
  "scrape sample_lib (const_world (page_of_cards [card_jpg, card_png]) Fetched) 739266 739266
     (parse_path (asc ''images'')) st0 =
   Some (\<lparr> files = {png_file, jpg_file},
           requests = [(jpg_file, asc ''https://mensa.fachschaft.tf/img/a.jpg''),
                       (png_file, asc ''https://mensa.fachschaft.tf/img/b.png'')] \<rparr>,
         Inr [[asc ''Pasta'', asc ''no'', asc ''no'', asc ''Hauptgericht'', asc ''Vegan'',
               asc ''Mensa Academica'', asc ''images/2025-01-15/mensa-academica_hauptgericht.jpg''],
              [asc ''Pizza'', asc ''no'', asc ''no'', asc ''Hauptgericht'', asc ''Vegan'',
               asc ''Mensa Academica'', asc ''images/2025-01-15/mensa-academica_hauptgericht.png'']])"
  using files_differ
  by (subst sample_single_day [OF no_headings_cards(1)])
     (simp add: cards_of_cards
      process_card_eval [OF card_jpg_extract sample_urlparse(1)]
      process_card_eval [OF card_png_extract sample_urlparse(2)]
      sample_image_ext sample_image_path sample_path_str download_def const_world_def st0_def)

lemma sample_same_extension_run:
  "scrape sample_lib (const_world (page_of_cards [card_jpg, card_jpg2]) Fetched) 739266 739266
     (parse_path (asc ''images'')) st0 =
   Some (\<lparr> files = {jpg_file},
           requests = [(jpg_file, asc ''https://mensa.fachschaft.tf/img/a.jpg'')] \<rparr>,
         Inr [[asc ''Pasta'', asc ''no'', asc ''no'', asc ''Hauptgericht'', asc ''Vegan'',
               asc ''Mensa Academica'', asc ''images/2025-01-15/mensa-academica_hauptgericht.jpg''],
              [asc ''Risotto'', asc ''no'', asc ''no'', asc ''Hauptgericht'', asc ''Vegan'',
               asc ''Mensa Academica'', asc ''images/2025-01-15/mensa-academica_hauptgericht.jpg'']])"
  by (subst sample_single_day [OF no_headings_cards(2)])
     (simp add: cards_of_cards
      process_card_eval [OF card_jpg_extract sample_urlparse(1)]
      process_card_eval [OF card_jpg2_extract sample_urlparse(3)]
      sample_image_ext sample_image_path sample_path_str download_def const_world_def st0_def)

lemma comma_image_path:
  "image_path sample_lib (parse_path (asc ''my,images'')) 739266 (asc ''Mensa Academica'')
     (asc ''Hauptgericht'') (asc ''.jpg'')
   = Path [] [asc ''my,images'', asc ''2025-01-15'', asc ''mensa-academica_hauptgericht.jpg'']"
  by (simp add: image_path_def sample_facts)
     (simp add: iso_739266 joinpath_def parse_path_def asc_def)

text \<open>
  Claim C6, as amended. The records handed to the CSV writer are the header followed
  by the rows. The header and every row have seven fields, and in every row the two
  placeholder columns are \<open>no\<close> and the type, diet and cafeteria columns contain neither
  a comma nor a semicolon. Nothing is said about the description and the image path.
\<close>

theorem csv_rows_shape:
  assumes "scrape L W start stop out_dir st = Some (st', Inr rows)"
  shows "save_csv rows = csv_header # rows \<and> length csv_header = 7 \<and> list_all row_shape rows"
  using assms by (rule csv_rows_shape_general)

theorem csv_rows_shape_witness:
  "save_csv [[asc ''Pasta Bolognese'', asc ''no'', asc ''no'', asc ''Hauptgericht'',
              asc ''Vegan'', asc ''Mensa Academica'',
              asc ''images/2025-01-15/mensa-academica_hauptgericht.jpg'']] =
     [csv_header, [asc ''Pasta Bolognese'', asc ''no'', asc ''no'', asc ''Hauptgericht'',
              asc ''Vegan'', asc ''Mensa Academica'',
              asc ''images/2025-01-15/mensa-academica_hauptgericht.jpg'']] \<and>
   length csv_header = 7 \<and>
   row_shape [asc ''Pasta Bolognese'', asc ''no'', asc ''no'', asc ''Hauptgericht'',
              asc ''Vegan'', asc ''Mensa Academica'',
              asc ''images/2025-01-15/mensa-academica_hauptgericht.jpg'']"
  using csv_rows_shape [OF sample_example_run] by simp

text \<open>
  Claim C6 as stated fails: with the output directory \<open>my,images\<close> the image path
  contains a comma, and a fullwidth comma in the description becomes a comma, because
  the description is normalised after its delimiters have been replaced.
\<close>

theorem csv_field_with_comma:
  "scrape sample_lib (const_world (page_of_cards [comma_card]) Fetched) 739266 739266
     (parse_path (asc ''my,images'')) st0 =
   Some (\<lparr> files = {Path [] [asc ''my,images'', asc ''2025-01-15'',
                               asc ''mensa-academica_hauptgericht.jpg'']},
           requests = [(Path [] [asc ''my,images'', asc ''2025-01-15'',
                                 asc ''mensa-academica_hauptgericht.jpg''],
                        asc ''https://mensa.fachschaft.tf/img/a.jpg'')] \<rparr>,
         Inr [[asc ''Reis,Curry'', asc ''no'', asc ''no'', asc ''Hauptgericht'', asc ''Vegan'',
               asc ''Mensa Academica'',
               asc ''my,images/2025-01-15/mensa-academica_hauptgericht.jpg'']]) \<and>
   \<not> delim_free (asc ''Reis,Curry'') \<and>
   \<not> delim_free (asc ''my,images/2025-01-15/mensa-academica_hauptgericht.jpg'')"
proof -
  have "path_str (Path [] [asc ''my,images'', asc ''2025-01-15'',
                           asc ''mensa-academica_hauptgericht.jpg''])
        = asc ''my,images/2025-01-15/mensa-academica_hauptgericht.jpg''"
    by (simp add: path_str_def asc_def)
  then have "scrape sample_lib (const_world (page_of_cards [comma_card]) Fetched) 739266 739266
     (parse_path (asc ''my,images'')) st0 =
   Some (\<lparr> files = {Path [] [asc ''my,images'', asc ''2025-01-15'',
                               asc ''mensa-academica_hauptgericht.jpg'']},
           requests = [(Path [] [asc ''my,images'', asc ''2025-01-15'',
                                 asc ''mensa-academica_hauptgericht.jpg''],
                        asc ''https://mensa.fachschaft.tf/img/a.jpg'')] \<rparr>,
         Inr [[asc ''Reis,Curry'', asc ''no'', asc ''no'', asc ''Hauptgericht'', asc ''Vegan'',
               asc ''Mensa Academica'',
               asc ''my,images/2025-01-15/mensa-academica_hauptgericht.jpg'']])"
    by (subst sample_single_day [OF no_headings_cards(3)])
     (simp add: cards_of_cards
        process_card_eval [OF comma_card_extract sample_urlparse(1)]
        sample_image_ext comma_image_path download_def const_world_def st0_def)
  moreover have "\<not> delim_free (asc ''Reis,Curry'')"
    by (simp add: delim_free_def asc_def)
  moreover have "\<not> delim_free (asc ''my,images/2025-01-15/mensa-academica_hauptgericht.jpg'')"
    by (simp add: delim_free_def asc_def)
  ultimately show ?thesis by blast
qed

lemma process_card_row_of:
  assumes "process_card L W out_dir day mensa crd st = (st', Inr (Some row))"
  shows "row = row_of L out_dir (day, mensa, crd)"
proof -
  obtain description diet dish_type img_url where
    e: "extract_card L crd = Inr (Some (description, diet, dish_type, img_url))"
    using assms
    by (auto simp: process_card_def split: sum.splits option.splits)
  obtain url_path where u: "urlparse_path L img_url = Inr url_path"
    using assms e by (auto simp: process_card_def split: sum.splits)
  have "row = [description, asc ''no'', asc ''no'', dish_type, diet, mensa,
               path_str (image_path L out_dir day mensa dish_type (image_ext url_path))]"
    using assms by (simp add: process_card_eval [OF e u] split: if_splits)
  then show ?thesis by (simp add: row_of_def e u)
qed

lemma cards_loop_order:
  assumes "cards_loop L W out_dir day mensa cards st rows0 = (st', Inr rows)"
  shows "\<exists>ks. subseq ks (map (\<lambda>crd. (day, mensa, crd)) cards) \<and>
              rows = rows0 @ map (row_of L out_dir) ks"
  using assms
proof (induction cards arbitrary: st rows0)
  case Nil
  then show ?case by simp
next
  case (Cons crd cards)
  obtain st1 r where p: "process_card L W out_dir day mensa crd st = (st1, r)"
    by (cases "process_card L W out_dir day mensa crd st")
  show ?case
  proof (cases r)
    case (Inl e)
    with Cons.prems p show ?thesis by simp
  next
    case (Inr ro)
    show ?thesis
    proof (cases ro)
      case None
      then have "cards_loop L W out_dir day mensa cards st1 rows0 = (st', Inr rows)"
        using Cons.prems p Inr by simp
      then obtain ks where "subseq ks (map (\<lambda>crd. (day, mensa, crd)) cards)"
        and "rows = rows0 @ map (row_of L out_dir) ks"
        using Cons.IH by blast
      then show ?thesis by auto
    next
      case (Some row)
      have row: "row = row_of L out_dir (day, mensa, crd)"
        using p Inr Some process_card_row_of by blast
      have "cards_loop L W out_dir day mensa cards st1 (rows0 @ [row]) = (st', Inr rows)"
        using Cons.prems p Inr Some by simp
      then obtain ks where k: "subseq ks (map (\<lambda>crd. (day, mensa, crd)) cards)"
        and r: "rows = (rows0 @ [row]) @ map (row_of L out_dir) ks"
        using Cons.IH by blast
      have "subseq ((day, mensa, crd) # ks) (map (\<lambda>crd. (day, mensa, crd)) (crd # cards))"
        using k by simp
      moreover have "rows = rows0 @ map (row_of L out_dir) ((day, mensa, crd) # ks)"
        using r row by simp
      ultimately show ?thesis by blast
    qed
  qed
qed

lemma headings_loop_order:
  assumes "headings_loop L W out_dir day hs st rows0 = (st', Inr rows)"
  shows "\<exists>ks. subseq ks (concat (map (heading_items L day) hs)) \<and>
              rows = rows0 @ map (row_of L out_dir) ks"
  using assms
proof (induction hs arbitrary: st rows0)
  case Nil
  then show ?case by simp
next
  case (Cons h hs)
  obtain h2 container where h: "h = (h2, container)" by (cases h)
  show ?case
  proof (cases "mensa_name L h2")
    case (Inl e)
    with Cons.prems h show ?thesis by simp
  next
    case (Inr mensa)
    show ?thesis
    proof (cases container)
      case None
      then have "heading_items L day h = []"
        using h Inr by (simp add: heading_items_def)
      moreover have "headings_loop L W out_dir day hs st rows0 = (st', Inr rows)"
        using Cons.prems h Inr None by simp
      ultimately show ?thesis using Cons.IH by simp
    next
      case (Some c)
      have hi: "heading_items L day h = map (\<lambda>crd. (day, mensa, crd)) (cards_of c)"
        using h Inr Some by (simp add: heading_items_def)
      obtain st1 r where cl: "cards_loop L W out_dir day mensa (cards_of c) st rows0 = (st1, r)"
        by (cases "cards_loop L W out_dir day mensa (cards_of c) st rows0")
      show ?thesis
      proof (cases r)
        case (Inl e)
        with Cons.prems h Inr Some cl show ?thesis by simp
      next
        case r: (Inr rows1)
        obtain ks1 where k1: "subseq ks1 (map (\<lambda>crd. (day, mensa, crd)) (cards_of c))"
          and r1: "rows1 = rows0 @ map (row_of L out_dir) ks1"
          using cl r cards_loop_order by blast
        have "headings_loop L W out_dir day hs st1 rows1 = (st', Inr rows)"
          using Cons.prems h Inr Some cl r by simp
        then obtain ks2 where k2: "subseq ks2 (concat (map (heading_items L day) hs))"
          and r2: "rows = rows1 @ map (row_of L out_dir) ks2"
          using Cons.IH by blast
        have "subseq (ks1 @ ks2) (concat (map (heading_items L day) (h # hs)))"
          using k1 k2 hi by (simp add: list_emb_append_mono)
        moreover have "rows = rows0 @ map (row_of L out_dir) (ks1 @ ks2)"
          using r1 r2 by simp
        ultimately show ?thesis by blast
      qed
    qed
  qed
qed

lemma days_loop_order:
  assumes "days_loop L W out_dir days st rows0 = (st', Inr rows)"
  shows "\<exists>ks. subseq ks (work_items L W days) \<and> rows = rows0 @ map (row_of L out_dir) ks"
  using assms
proof (induction days arbitrary: st rows0)
  case Nil
  then show ?case by (simp add: work_items_def)
next
  case (Cons day days)
  show ?case
  proof (cases "goto W (day_url day)")
    case None
    then have "day_items L W day = []" by (simp add: day_items_def)
    then have "work_items L W (day # days) = work_items L W days"
      by (simp add: work_items_def)
    moreover have "days_loop L W out_dir days st rows0 = (st', Inr rows)"
      using Cons.prems None by simp
    ultimately show ?thesis using Cons.IH by simp
  next
    case (Some soup)
    have di: "day_items L W day = concat (map (heading_items L day) (headings L (descendants soup)))"
      using Some by (simp add: day_items_def)
    obtain st1 r where hl:
      "headings_loop L W out_dir day (headings L (descendants soup)) st rows0 = (st1, r)"
      by (cases "headings_loop L W out_dir day (headings L (descendants soup)) st rows0")
    show ?thesis
    proof (cases r)
      case (Inl e)
      with Cons.prems Some hl show ?thesis by simp
    next
      case (Inr rows1)
      have hl': "headings_loop L W out_dir day (headings L (descendants soup)) st rows0
                 = (st1, Inr rows1)"
        using hl Inr by simp
      obtain ks1 where
        k0: "subseq ks1 (concat (map (heading_items L day) (headings L (descendants soup))))"
        and r1: "rows1 = rows0 @ map (row_of L out_dir) ks1"
        using headings_loop_order [OF hl'] by blast
      have k1: "subseq ks1 (day_items L W day)"
        using k0 by (simp only: di)
      have "days_loop L W out_dir days st1 rows1 = (st', Inr rows)"
        using Cons.prems Some hl Inr by simp
      then obtain ks2 where k2: "subseq ks2 (work_items L W days)"
        and r2: "rows = rows1 @ map (row_of L out_dir) ks2"
        using Cons.IH by blast
      have "subseq (ks1 @ ks2) (work_items L W (day # days))"
        using k1 k2 by (simp add: work_items_def list_emb_append_mono)
      moreover have "rows = rows0 @ map (row_of L out_dir) (ks1 @ ks2)"
        using r1 r2 by simp
      ultimately show ?thesis by blast
    qed
  qed
qed

lemma headings_document_order: "map fst (headings L xs) = filter (is_heading L) xs"
  by (induction xs) auto

lemma rows_in_order_general:
  assumes "scrape L W start stop out_dir st = Some (st', Inr rows)"
  shows "\<exists>days ks. daterange start stop = Some (days, None) \<and>
           subseq ks (work_items L W days) \<and>
           rows = map (row_of L out_dir) ks \<and>
           save_csv rows = csv_header # map (row_of L out_dir) ks"
proof -
  obtain days where d: "daterange start stop = Some (days, None)"
    and l: "days_loop L W out_dir days st [] = (st', Inr rows)"
    using assms scrape_days_loop by blast
  obtain ks where "subseq ks (work_items L W days)" and "rows = map (row_of L out_dir) ks"
    using days_loop_order [OF l] by auto
  with d show ?thesis by (auto simp: save_csv_def)
qed

text \<open>
  Claim C10. The returned rows keep the processing order: they are the rows of a
  subsequence of the visited cards, taken day by day in the order in which
  \<open>daterange\<close> yields the days (descending for a backward range, by C1), within a day
  heading by heading and within a heading card by card in document order. Cards that
  are dropped leave no row. The CSV writer receives the header followed by these rows
  in the same order.
\<close>

theorem rows_in_processing_order:
  assumes "scrape L W start stop out_dir st = Some (st', Inr rows)"
  shows "\<exists>days ks. daterange start stop = Some (days, None) \<and>
           subseq ks (work_items L W days) \<and>
           rows = map (row_of L out_dir) ks \<and>
           save_csv rows = csv_header # map (row_of L out_dir) ks"
  using assms by (rule rows_in_order_general)

theorem rows_in_processing_order_witness:
  "\<exists>days ks. daterange 739266 739266 = Some (days, None) \<and>
     subseq ks (work_items sample_lib (const_world (page_of_cards [card_jpg, card_png]) Fetched) days) \<and>
     [[asc ''Pasta'', asc ''no'', asc ''no'', asc ''Hauptgericht'', asc ''Vegan'',
       asc ''Mensa Academica'', asc ''images/2025-01-15/mensa-academica_hauptgericht.jpg''],
      [asc ''Pizza'', asc ''no'', asc ''no'', asc ''Hauptgericht'', asc ''Vegan'',
       asc ''Mensa Academica'', asc ''images/2025-01-15/mensa-academica_hauptgericht.png'']]
       = map (row_of sample_lib (parse_path (asc ''images''))) ks"
proof -
  obtain days ks where "daterange 739266 739266 = Some (days, None)"
    and "subseq ks (work_items sample_lib
           (const_world (page_of_cards [card_jpg, card_png]) Fetched) days)"
    and "[[asc ''Pasta'', asc ''no'', asc ''no'', asc ''Hauptgericht'', asc ''Vegan'',
       asc ''Mensa Academica'', asc ''images/2025-01-15/mensa-academica_hauptgericht.jpg''],
      [asc ''Pizza'', asc ''no'', asc ''no'', asc ''Hauptgericht'', asc ''Vegan'',
       asc ''Mensa Academica'', asc ''images/2025-01-15/mensa-academica_hauptgericht.png'']]
       = map (row_of sample_lib (parse_path (asc ''images''))) ks"
    using rows_in_processing_order [OF sample_two_extensions_run]
    by (elim exE conjE) (rule that)
  then show ?thesis by (intro exI conjI)
qed

lemma replay_append:
  "replay W n F (a @ b) =
     (case replay W n F a of None \<Rightarrow> None | Some F' \<Rightarrow> replay W (n + length a) F' b)"
proof (induction a arbitrary: n F)
  case Nil
  show ?case by simp
next
  case (Cons e a)
  obtain p u where e: "e = (p, u)" by (cases e)
  show ?case
    unfolding e by (cases "p \<in> F") (simp_all add: Cons.IH split: option.splits)
qed

lemma replay_mono:
  "replay W n F new = Some F' \<Longrightarrow> F \<subseteq> F' \<and> (\<forall>e\<in>set new. fst e \<notin> F)"
proof (induction new arbitrary: n F)
  case Nil
  then show ?case by simp
next
  case (Cons e new)
  obtain p u where e: "e = (p, u)" by (cases e)
  let ?F1 = "case fetch W n u of Fetched \<Rightarrow> insert p F | GetFailed \<Rightarrow> F
             | WriteFailed created \<Rightarrow> if created then insert p F else F"
  from Cons.prems e have p: "p \<notin> F" and r: "replay W (Suc n) ?F1 new = Some F'"
    by (auto split: if_splits)
  have sub: "F \<subseteq> ?F1"
    by (auto split: fetch_result.splits)
  from Cons.IH [OF r] have "?F1 \<subseteq> F'" and "\<forall>e\<in>set new. fst e \<notin> ?F1"
    by blast+
  with sub p e show ?case by auto
qed

lemma extends_refl: "extends W st st"
  by (simp add: extends_def)

lemma extends_trans:
  assumes "extends W a b" and "extends W b c"
  shows "extends W a c"
proof -
  obtain n1 where 1: "requests b = requests a @ n1"
    and r1: "replay W (length (requests a)) (files a) n1 = Some (files b)"
    using assms(1) by (auto simp: extends_def)
  obtain n2 where 2: "requests c = requests b @ n2"
    and r2: "replay W (length (requests b)) (files b) n2 = Some (files c)"
    using assms(2) by (auto simp: extends_def)
  have "requests c = requests a @ (n1 @ n2)"
    using 1 2 by simp
  moreover have "replay W (length (requests a)) (files a) (n1 @ n2) = Some (files c)"
    using r1 r2 1 by (simp add: replay_append)
  ultimately show ?thesis
    unfolding extends_def by blast
qed

lemma download_extends: "extends W st (fst (download W fpath img_url st))"
proof (cases "fpath \<in> files st")
  case True
  then show ?thesis by (simp add: download_def extends_refl)
next
  case False
  then show ?thesis
    by (cases "fetch W (length (requests st)) img_url")
       (auto simp: download_def extends_def Let_def)
qed

lemma process_card_extends:
  assumes "process_card L W out_dir day mensa crd st = (st', r)"
  shows "extends W st st'"
proof (cases "extract_card L crd")
  case (Inl e)
  with assms show ?thesis by (simp add: process_card_def extends_refl)
next
  case (Inr x)
  show ?thesis
  proof (cases x)
    case None
    with assms Inr show ?thesis by (simp add: process_card_def extends_refl)
  next
    case (Some t)
    obtain description diet dish_type img_url where t: "t = (description, diet, dish_type, img_url)"
      by (cases t)
    show ?thesis
    proof (cases "urlparse_path L img_url")
      case (Inl e)
      with assms Inr Some t show ?thesis by (simp add: process_card_def extends_refl)
    next
      case u: (Inr url_path)
      have "st' = fst (download W (image_path L out_dir day mensa dish_type (image_ext url_path))
                         img_url st)"
        using assms Inr Some t u by (simp add: process_card_eval)
      then show ?thesis by (simp add: download_extends)
    qed
  qed
qed

lemma cards_loop_extends:
  assumes "cards_loop L W out_dir day mensa cards st rows0 = (st', r)"
  shows "extends W st st'"
  using assms
proof (induction cards arbitrary: st rows0)
  case Nil
  then show ?case by (simp add: extends_refl)
next
  case (Cons crd cards)
  obtain st1 r1 where p: "process_card L W out_dir day mensa crd st = (st1, r1)"
    by (cases "process_card L W out_dir day mensa crd st")
  then have e: "extends W st st1" by (rule process_card_extends)
  show ?case
  proof (cases r1)
    case (Inl err)
    with Cons.prems p e show ?thesis by simp
  next
    case (Inr ro)
    have "\<exists>rows1. cards_loop L W out_dir day mensa cards st1 rows1 = (st', r)"
      using Cons.prems p Inr by (cases ro) auto
    then have "extends W st1 st'" using Cons.IH by blast
    with e show ?thesis by (rule extends_trans)
  qed
qed

lemma headings_loop_extends:
  assumes "headings_loop L W out_dir day hs st rows0 = (st', r)"
  shows "extends W st st'"
  using assms
proof (induction hs arbitrary: st rows0)
  case Nil
  then show ?case by (simp add: extends_refl)
next
  case (Cons h hs)
  obtain h2 container where h: "h = (h2, container)" by (cases h)
  show ?case
  proof (cases "mensa_name L h2")
    case (Inl e)
    with Cons.prems h show ?thesis by (simp add: extends_refl)
  next
    case (Inr mensa)
    show ?thesis
    proof (cases container)
      case None
      with Cons h Inr show ?thesis by simp
    next
      case (Some c)
      obtain st1 r1 where cl: "cards_loop L W out_dir day mensa (cards_of c) st rows0 = (st1, r1)"
        by (cases "cards_loop L W out_dir day mensa (cards_of c) st rows0")
      then have e: "extends W st st1" by (rule cards_loop_extends)
      show ?thesis
      proof (cases r1)
        case (Inl err)
        with Cons.prems h Inr Some cl e show ?thesis by simp
      next
        case r1: (Inr rows1)
        have "headings_loop L W out_dir day hs st1 rows1 = (st', r)"
          using Cons.prems h Inr Some cl r1 by simp
        then have "extends W st1 st'" by (rule Cons.IH)
        with e show ?thesis by (rule extends_trans)
      qed
    qed
  qed
qed

lemma days_loop_extends:
  assumes "days_loop L W out_dir days st rows0 = (st', r)"
  shows "extends W st st'"
  using assms
proof (induction days arbitrary: st rows0)
  case Nil
  then show ?case by (simp add: extends_refl)
next
  case (Cons day days)
  show ?case
  proof (cases "goto W (day_url day)")
    case None
    with Cons show ?thesis by simp
  next
    case (Some soup)
    obtain st1 r1 where hl:
      "headings_loop L W out_dir day (headings L (descendants soup)) st rows0 = (st1, r1)"
      by (cases "headings_loop L W out_dir day (headings L (descendants soup)) st rows0")
    then have e: "extends W st st1" by (rule headings_loop_extends)
    show ?thesis
    proof (cases r1)
      case (Inl err)
      with Cons.prems Some hl e show ?thesis by simp
    next
      case (Inr rows1)
      have "days_loop L W out_dir days st1 rows1 = (st', r)"
        using Cons.prems Some hl Inr by simp
      then have "extends W st1 st'" by (rule Cons.IH)
      with e show ?thesis by (rule extends_trans)
    qed
  qed
qed

lemma scrape_extends:
  assumes "scrape L W start stop out_dir st = Some (st', r)"
  shows "extends W st st'"
proof -
  obtain days exn where d: "daterange start stop = Some (days, exn)"
    using assms by (auto simp: scrape_def split: option.splits)
  obtain st1 r1 where l: "days_loop L W out_dir days st [] = (st1, r1)"
    by (cases "days_loop L W out_dir days st []")
  have "st' = st1"
    using assms d l by (auto simp: scrape_def split: sum.splits option.splits)
  with l show ?thesis using days_loop_extends by blast
qed

lemma process_card_existing_file:
  assumes "extract_card L crd = Inr (Some (description, diet, dish_type, img_url))"
    and "urlparse_path L img_url = Inr url_path"
    and "image_path L out_dir day mensa dish_type (image_ext url_path) \<in> files st"
  shows "process_card L W out_dir day mensa crd st =
           (st, Inr (Some [description, asc ''no'', asc ''no'', dish_type, diet, mensa,
              path_str (image_path L out_dir day mensa dish_type (image_ext url_path))]))"
  using assms(3) by (simp add: process_card_eval [OF assms(1,2)] download_def)

lemma two_cards_one_fetch:
  assumes "extract_card L c1 = Inr (Some (d1, diet1, dish_type, u1))"
    and "extract_card L c2 = Inr (Some (d2, diet2, dish_type, u2))"
    and "urlparse_path L u1 = Inr p1" and "urlparse_path L u2 = Inr p2"
    and "image_ext p1 = image_ext p2"
    and "image_path L out_dir day mensa dish_type (image_ext p1) \<notin> files st"
    and "fetch W (length (requests st)) u1 = Fetched"
  shows "cards_loop L W out_dir day mensa [c1, c2] st rows =
           (st\<lparr>requests := requests st @
                   [(image_path L out_dir day mensa dish_type (image_ext p1), u1)],
               files := insert (image_path L out_dir day mensa dish_type (image_ext p1)) (files st)\<rparr>,
            Inr (rows @
              [[d1, asc ''no'', asc ''no'', dish_type, diet1, mensa,
                path_str (image_path L out_dir day mensa dish_type (image_ext p1))],
               [d2, asc ''no'', asc ''no'', dish_type, diet2, mensa,
                path_str (image_path L out_dir day mensa dish_type (image_ext p1))]]))"
proof -
  let ?f = "image_path L out_dir day mensa dish_type (image_ext p1)"
  let ?st1 = "st\<lparr>requests := requests st @ [(?f, u1)], files := insert ?f (files st)\<rparr>"
  have 1: "process_card L W out_dir day mensa c1 st =
             (?st1, Inr (Some [d1, asc ''no'', asc ''no'', dish_type, diet1, mensa, path_str ?f]))"
    using assms(6,7) by (simp add: process_card_eval [OF assms(1,3)] download_def Let_def)
  have "image_path L out_dir day mensa dish_type (image_ext p2) \<in> files ?st1"
    using assms(5) by simp
  then have 2: "process_card L W out_dir day mensa c2 ?st1 =
             (?st1, Inr (Some [d2, asc ''no'', asc ''no'', dish_type, diet2, mensa, path_str ?f]))"
    using process_card_existing_file [OF assms(2,4)] assms(5) by simp
  show ?thesis by (simp add: 1 2)
qed

lemma run_requests:
  assumes "scrape L W start stop out_dir st = Some (st', r)"
  shows "\<exists>new. requests st' = requests st @ new \<and>
               replay W (length (requests st)) (files st) new = Some (files st') \<and>
               files st \<subseteq> files st' \<and> (\<forall>e\<in>set new. fst e \<notin> files st)"
proof -
  obtain new where n: "requests st' = requests st @ new"
    and r: "replay W (length (requests st)) (files st) new = Some (files st')"
    using scrape_extends [OF assms] by (auto simp: extends_def)
  from replay_mono [OF r] n r show ?thesis by blast
qed

text \<open>
  Claim C5, as amended. Downloads are deduplicated by destination path, which is made
  of the day, the slugs of cafeteria and type, and the extension of the image URL.
  First, when the destination file exists the card causes no request and its row
  refers to that file. Second, in every run the new requests replay without ever
  targeting a file that exists at that moment: no file that existed before the run is
  requested, and none that the run has already written. Third, for two consecutive
  cards of one heading with the same type and the same image extension, when the file
  does not exist and the first fetch succeeds, there is exactly one request and both
  rows refer to the same image path.
\<close>

theorem download_deduplicated:
  "(extract_card L crd = Inr (Some (description, diet, dish_type, img_url)) \<and>
    urlparse_path L img_url = Inr url_path \<and>
    image_path L out_dir day mensa dish_type (image_ext url_path) \<in> files st \<longrightarrow>
      process_card L W out_dir day mensa crd st =
        (st, Inr (Some [description, asc ''no'', asc ''no'', dish_type, diet, mensa,
           path_str (image_path L out_dir day mensa dish_type (image_ext url_path))]))) \<and>
   (scrape L W start stop out_dir st = Some (st', r) \<longrightarrow>
      (\<exists>new. requests st' = requests st @ new \<and>
             replay W (length (requests st)) (files st) new = Some (files st') \<and>
             files st \<subseteq> files st' \<and> (\<forall>e\<in>set new. fst e \<notin> files st))) \<and>
   (extract_card L c1 = Inr (Some (d1, diet1, dish_type, u1)) \<and>
    extract_card L c2 = Inr (Some (d2, diet2, dish_type, u2)) \<and>
    urlparse_path L u1 = Inr p1 \<and> urlparse_path L u2 = Inr p2 \<and>
    image_ext p1 = image_ext p2 \<and>
    image_path L out_dir day mensa dish_type (image_ext p1) \<notin> files st \<and>
    fetch W (length (requests st)) u1 = Fetched \<longrightarrow>
      cards_loop L W out_dir day mensa [c1, c2] st rows =
        (st\<lparr>requests := requests st @
                [(image_path L out_dir day mensa dish_type (image_ext p1), u1)],
            files := insert (image_path L out_dir day mensa dish_type (image_ext p1)) (files st)\<rparr>,
         Inr (rows @
           [[d1, asc ''no'', asc ''no'', dish_type, diet1, mensa,
             path_str (image_path L out_dir day mensa dish_type (image_ext p1))],
            [d2, asc ''no'', asc ''no'', dish_type, diet2, mensa,
             path_str (image_path L out_dir day mensa dish_type (image_ext p1))]])))"
proof (intro conjI impI)
  assume "extract_card L crd = Inr (Some (description, diet, dish_type, img_url)) \<and>
    urlparse_path L img_url = Inr url_path \<and>
    image_path L out_dir day mensa dish_type (image_ext url_path) \<in> files st"
  then show "process_card L W out_dir day mensa crd st =
        (st, Inr (Some [description, asc ''no'', asc ''no'', dish_type, diet, mensa,
           path_str (image_path L out_dir day mensa dish_type (image_ext url_path))]))"
    using process_card_existing_file by blast
next
  assume "scrape L W start stop out_dir st = Some (st', r)"
  then show "\<exists>new. requests st' = requests st @ new \<and>
             replay W (length (requests st)) (files st) new = Some (files st') \<and>
             files st \<subseteq> files st' \<and> (\<forall>e\<in>set new. fst e \<notin> files st)"
    by (rule run_requests)
next
  assume a: "extract_card L c1 = Inr (Some (d1, diet1, dish_type, u1)) \<and>
    extract_card L c2 = Inr (Some (d2, diet2, dish_type, u2)) \<and>
    urlparse_path L u1 = Inr p1 \<and> urlparse_path L u2 = Inr p2 \<and>
    image_ext p1 = image_ext p2 \<and>
    image_path L out_dir day mensa dish_type (image_ext p1) \<notin> files st \<and>
    fetch W (length (requests st)) u1 = Fetched"
  show "cards_loop L W out_dir day mensa [c1, c2] st rows =
        (st\<lparr>requests := requests st @
                [(image_path L out_dir day mensa dish_type (image_ext p1), u1)],
            files := insert (image_path L out_dir day mensa dish_type (image_ext p1)) (files st)\<rparr>,
         Inr (rows @
           [[d1, asc ''no'', asc ''no'', dish_type, diet1, mensa,
             path_str (image_path L out_dir day mensa dish_type (image_ext p1))],
            [d2, asc ''no'', asc ''no'', dish_type, diet2, mensa,
             path_str (image_path L out_dir day mensa dish_type (image_ext p1))]]))"
  proof -
    from a have 1: "extract_card L c1 = Inr (Some (d1, diet1, dish_type, u1))"
      and 2: "extract_card L c2 = Inr (Some (d2, diet2, dish_type, u2))"
      and 3: "urlparse_path L u1 = Inr p1" and 4: "urlparse_path L u2 = Inr p2"
      and 5: "image_ext p1 = image_ext p2"
      and 6: "image_path L out_dir day mensa dish_type (image_ext p1) \<notin> files st"
      and 7: "fetch W (length (requests st)) u1 = Fetched"
      by blast+
    show ?thesis by (rule two_cards_one_fetch [OF 1 2 3 4 5 6 7])
  qed
qed

theorem download_deduplicated_witness:
  "cards_loop sample_lib (const_world (page_of_cards [card_jpg, card_jpg2]) Fetched)
     (parse_path (asc ''images'')) 739266 (asc ''Mensa Academica'') [card_jpg, card_jpg2] st0 [] =
     (\<lparr> files = {jpg_file},
        requests = [(jpg_file, asc ''https://mensa.fachschaft.tf/img/a.jpg'')] \<rparr>,
      Inr [[asc ''Pasta'', asc ''no'', asc ''no'', asc ''Hauptgericht'', asc ''Vegan'',
            asc ''Mensa Academica'', asc ''images/2025-01-15/mensa-academica_hauptgericht.jpg''],
           [asc ''Risotto'', asc ''no'', asc ''no'', asc ''Hauptgericht'', asc ''Vegan'',
            asc ''Mensa Academica'', asc ''images/2025-01-15/mensa-academica_hauptgericht.jpg'']]) \<and>
   process_card sample_lib (const_world (page_of_cards [card_jpg, card_jpg2]) Fetched)
     (parse_path (asc ''images'')) 739266 (asc ''Mensa Academica'') card_jpg2
     \<lparr> files = {jpg_file}, requests = [] \<rparr> =
     (\<lparr> files = {jpg_file}, requests = [] \<rparr>,
      Inr (Some [asc ''Risotto'', asc ''no'', asc ''no'', asc ''Hauptgericht'', asc ''Vegan'',
            asc ''Mensa Academica'', asc ''images/2025-01-15/mensa-academica_hauptgericht.jpg''])) \<and>
   replay (const_world (page_of_cards [card_jpg, card_jpg2]) Fetched) 0 {}
     [(jpg_file, asc ''https://mensa.fachschaft.tf/img/a.jpg'')] = Some {jpg_file}"
proof -
  let ?W = "const_world (page_of_cards [card_jpg, card_jpg2]) Fetched"
  let ?out = "parse_path (asc ''images'')"
  let ?m = "asc ''Mensa Academica''"
  let ?t = "asc ''Hauptgericht''"
  let ?ua = "asc ''https://mensa.fachschaft.tf/img/a.jpg''"
  let ?uc = "asc ''https://mensa.fachschaft.tf/img/c.jpg''"
  let ?st1 = "\<lparr> files = {jpg_file}, requests = [(jpg_file, ?ua)] \<rparr>"
  let ?stj = "\<lparr> files = {jpg_file}, requests = [] \<rparr>"
  let ?rows = "[[asc ''Pasta'', asc ''no'', asc ''no'', ?t, asc ''Vegan'', ?m,
                 asc ''images/2025-01-15/mensa-academica_hauptgericht.jpg''],
                [asc ''Risotto'', asc ''no'', asc ''no'', ?t, asc ''Vegan'', ?m,
                 asc ''images/2025-01-15/mensa-academica_hauptgericht.jpg'']]"
  have two: "cards_loop sample_lib ?W ?out 739266 ?m [card_jpg, card_jpg2] st0 [] = (?st1, Inr ?rows)"
  proof -
    have h: "extract_card sample_lib card_jpg = Inr (Some (asc ''Pasta'', asc ''Vegan'', ?t, ?ua)) \<and>
             extract_card sample_lib card_jpg2 = Inr (Some (asc ''Risotto'', asc ''Vegan'', ?t, ?uc)) \<and>
             urlparse_path sample_lib ?ua = Inr (asc ''/img/a.jpg'') \<and>
             urlparse_path sample_lib ?uc = Inr (asc ''/img/c.jpg'') \<and>
             image_ext (asc ''/img/a.jpg'') = image_ext (asc ''/img/c.jpg'') \<and>
             image_path sample_lib ?out 739266 ?m ?t (image_ext (asc ''/img/a.jpg'')) \<notin> files st0 \<and>
             fetch ?W (length (requests st0)) ?ua = Fetched"
      by (simp add: card_jpg_extract card_jpg2_extract sample_urlparse sample_image_ext
          st0_def const_world_def)
    from download_deduplicated [THEN conjunct2, THEN conjunct2, rule_format, OF h, of "[]"]
    show ?thesis
      by (simp add: sample_image_ext sample_image_path sample_path_str st0_def)
  qed
  have skip: "process_card sample_lib ?W ?out 739266 ?m card_jpg2 ?stj =
                (?stj, Inr (Some [asc ''Risotto'', asc ''no'', asc ''no'', ?t, asc ''Vegan'', ?m,
                   asc ''images/2025-01-15/mensa-academica_hauptgericht.jpg'']))"
  proof -
    have h: "extract_card sample_lib card_jpg2 = Inr (Some (asc ''Risotto'', asc ''Vegan'', ?t, ?uc)) \<and>
             urlparse_path sample_lib ?uc = Inr (asc ''/img/c.jpg'') \<and>
             image_path sample_lib ?out 739266 ?m ?t (image_ext (asc ''/img/c.jpg'')) \<in> files ?stj"
      by (simp add: card_jpg2_extract sample_urlparse sample_image_ext sample_image_path)
    from download_deduplicated [THEN conjunct1, rule_format, OF h, of ?W]
    show ?thesis
      by (simp add: sample_image_ext sample_image_path sample_path_str)
  qed
  have run: "replay ?W 0 {} [(jpg_file, ?ua)] = Some {jpg_file}"
  proof -
    from download_deduplicated [THEN conjunct2, THEN conjunct1, rule_format,
        OF sample_same_extension_run]
    obtain new where "requests ?st1 = requests st0 @ new"
      and "replay ?W (length (requests st0)) (files st0) new = Some (files ?st1)"
      by blast
    then show ?thesis by (simp add: st0_def)
  qed
  from two skip run show ?thesis by (intro conjI)
qed

text \<open>
  Claim C5 as stated fails: two cards of the same day with the same cafeteria and type
  whose image URLs end in \<open>.jpg\<close> and \<open>.png\<close> cause two fetches, and their rows refer to
  two different image paths.
\<close>

theorem two_extensions_two_fetches:
  "scrape sample_lib (const_world (page_of_cards [card_jpg, card_png]) Fetched) 739266 739266
     (parse_path (asc ''images'')) st0 =
   Some (\<lparr> files = {png_file, jpg_file},
           requests = [(jpg_file, asc ''https://mensa.fachschaft.tf/img/a.jpg''),
                       (png_file, asc ''https://mensa.fachschaft.tf/img/b.png'')] \<rparr>,
         Inr [[asc ''Pasta'', asc ''no'', asc ''no'', asc ''Hauptgericht'', asc ''Vegan'',
               asc ''Mensa Academica'', asc ''images/2025-01-15/mensa-academica_hauptgericht.jpg''],
              [asc ''Pizza'', asc ''no'', asc ''no'', asc ''Hauptgericht'', asc ''Vegan'',
               asc ''Mensa Academica'', asc ''images/2025-01-15/mensa-academica_hauptgericht.png'']]) \<and>
   jpg_file \<noteq> png_file \<and>
   asc ''images/2025-01-15/mensa-academica_hauptgericht.jpg'' \<noteq>
   asc ''images/2025-01-15/mensa-academica_hauptgericht.png''"
proof -
  have "asc ''images/2025-01-15/mensa-academica_hauptgericht.jpg'' \<noteq>
        asc ''images/2025-01-15/mensa-academica_hauptgericht.png''"
    by (simp add: asc_def)
  with sample_two_extensions_run files_differ show ?thesis by (intro conjI)
qed

end
